theory Spec2Isabelle
  imports Main "HOL-Library.Sublist" "HOL-Library.Char_ord"
begin

section \<open>Strings and byte slices\<close>

text \<open>
  Go strings and byte slices are sequences of bytes; both are modelled as \<open>string\<close>
  (a list of 8-bit characters). The functions of this section are the functions of Go's
  \<open>strings\<close> and \<open>bytes\<close> packages that \<open>hydra.go\<close> calls, under their Go names.
\<close>

fun HasPrefix :: "string \<Rightarrow> string \<Rightarrow> bool" where
  "HasPrefix s [] = True"
| "HasPrefix [] (p # ps) = False"
| "HasPrefix (c # s) (p # ps) = (c = p \<and> HasPrefix s ps)"

text \<open>\<open>strings.Index\<close>: the position of the first instance of \<open>substr\<close>; \<open>None\<close> is Go's -1.\<close>

fun Index :: "string \<Rightarrow> string \<Rightarrow> nat option" where
  "Index [] substr = (if substr = [] then Some 0 else None)"
| "Index (c # s) substr =
     (if HasPrefix (c # s) substr then Some 0 else map_option Suc (Index s substr))"

text \<open>\<open>strings.Contains\<close> and \<open>bytes.Contains\<close>: \<open>Index(s, substr) != -1\<close>.\<close>

definition Contains :: "string \<Rightarrow> string \<Rightarrow> bool" where
  "Contains s substr = (Index s substr \<noteq> None)"

text \<open>
  The loop of \<open>strings.genSplit\<close> for a non-empty separator: cut at the first instance of
  \<open>sep\<close>, at most \<open>k\<close> times; what is left is the last element.
\<close>

fun genSplit_loop :: "string \<Rightarrow> string \<Rightarrow> nat \<Rightarrow> string list" where
  "genSplit_loop s sep 0 = [s]"
| "genSplit_loop s sep (Suc k) =
     (case Index s sep of
        None \<Rightarrow> [s]
      | Some m \<Rightarrow> take m s # genSplit_loop (drop (m + length sep) s) sep k)"

text \<open>
  \<open>strings.SplitN(s, sep, n)\<close> for a non-empty \<open>sep\<close> (the program only ever passes
  \<open>":"\<close>): no element for \<open>n = 0\<close>, every cut for \<open>n < 0\<close> (there are at most
  \<open>len(s)\<close> of them), and otherwise at most \<open>n\<close> elements, \<open>n\<close> capped at \<open>len(s) + 1\<close>.
\<close>

definition SplitN :: "string \<Rightarrow> string \<Rightarrow> int \<Rightarrow> string list" where
  "SplitN s sep n =
     (if n = 0 then []
      else if n < 0 then genSplit_loop s sep (length s)
      else genSplit_loop s sep (nat (min n (int (length s) + 1)) - 1))"

text \<open>\<open>strings.TrimLeft\<close>: drop the leading bytes that belong to \<open>cutset\<close>.\<close>

definition TrimLeft :: "string \<Rightarrow> string \<Rightarrow> string" where
  "TrimLeft s cutset = dropWhile (\<lambda>c. c \<in> set cutset) s"

text \<open>
  The loop of \<open>strings.Replace\<close> for a non-empty \<open>old\<close>: up to \<open>k\<close> times, copy the text
  before the next instance of \<open>old\<close>, write \<open>new\<close>, and go on behind that instance; the rest
  is copied as it is.
\<close>

fun Replace_loop :: "string \<Rightarrow> string \<Rightarrow> string \<Rightarrow> nat \<Rightarrow> string" where
  "Replace_loop s old new 0 = s"
| "Replace_loop s old new (Suc k) =
     (case Index s old of
        None \<Rightarrow> s
      | Some j \<Rightarrow> take j s @ new @ Replace_loop (drop (j + length old) s) old new k)"

text \<open>
  \<open>strings.Replace(s, old, new, n)\<close> for a non-empty \<open>old\<close>: the first \<open>n\<close> non-overlapping
  instances, all of them when \<open>n < 0\<close> (there are at most \<open>len(s)\<close>).
\<close>

definition Replace :: "string \<Rightarrow> string \<Rightarrow> string \<Rightarrow> int \<Rightarrow> string" where
  "Replace s old new n =
     (if old = new \<or> n = 0 then s
      else Replace_loop s old new (if n < 0 then length s else nat n))"

text \<open>
  What "every occurrence of \<open>old\<close> replaced by \<open>new\<close>" means, position by position from
  the left: where \<open>old\<close> starts, \<open>new\<close> is written and the scan goes on behind the
  occurrence; any other byte is copied.
\<close>

function substitute :: "string \<Rightarrow> string \<Rightarrow> string \<Rightarrow> string" where
  "substitute old new [] = []"
| "substitute old new (c # s) =
     (if old \<noteq> [] \<and> prefix old (c # s)
      then new @ substitute old new (drop (length old) (c # s))
      else c # substitute old new s)"
  by pat_completeness auto
termination
  by (relation "measure (\<lambda>(old, new, s). length s)") auto

text \<open>\<open>strconv.Itoa\<close> on a length, which is never negative.\<close>

fun Itoa :: "nat \<Rightarrow> string" where
  "Itoa n =
     (if n < 10 then [char_of (48 + n)]
      else Itoa (n div 10) @ [char_of (48 + n mod 10)])"

text \<open>
  \<open>url.QueryEscape\<close>: letters, digits and \<open>- _ . ~\<close> stay, a space becomes \<open>+\<close>, every
  other byte becomes \<open>%XX\<close> with upper-case hexadecimal digits.
\<close>

definition shouldEscape :: "char \<Rightarrow> bool" where
  "shouldEscape c =
     (\<not> ((CHR ''a'' \<le> c \<and> c \<le> CHR ''z'') \<or> (CHR ''A'' \<le> c \<and> c \<le> CHR ''Z'')
         \<or> (CHR ''0'' \<le> c \<and> c \<le> CHR ''9'')
         \<or> c = CHR ''-'' \<or> c = CHR ''_'' \<or> c = CHR ''.'' \<or> c = CHR ''~''))"

definition upperhex :: string where
  "upperhex = ''0123456789ABCDEF''"

definition escape_byte :: "char \<Rightarrow> string" where
  "escape_byte c =
     (if shouldEscape c then
        (if c = CHR '' '' then ''+''
         else [CHR ''%'', upperhex ! ((of_char c :: nat) div 16), upperhex ! ((of_char c :: nat) mod 16)])
      else [c])"

definition QueryEscape :: "string \<Rightarrow> string" where
  "QueryEscape s = concat (map escape_byte s)"


section \<open>Header flags\<close>

record Header =
  key :: string
  val :: string

type_synonym Headers = "Header list"

datatype failure = Error string | IndexOutOfRange

text \<open>
  \<open>Headers.Set\<close>, called by the flag package once for every \<open>-h\<close> and \<open>-H\<close>. The result is
  the error (\<open>Inl\<close>) or the list after the append (\<open>Inr\<close>); indexing \<open>kv\<close> beyond its length
  would be a run-time panic.
\<close>

definition Headers_Set :: "Headers \<Rightarrow> string \<Rightarrow> failure + Headers" where
  "Headers_Set hs v =
     (if \<not> Contains v '':'' then Inl (Error (''invalid header: '' @ v))
      else
        (case SplitN v '':'' 2 of
           k # r # _ \<Rightarrow> Inr (hs @ [\<lparr>key = k, val = TrimLeft r '' ''\<rparr>])
         | _ \<Rightarrow> Inl IndexOutOfRange))"


section \<open>Pairs\<close>

record Job =
  user :: string
  pass :: string


section \<open>Start-up checks of \<open>main\<close>\<close>

text \<open>The flag variables, and \<open>flag.Args()\<close> as \<open>args\<close>.\<close>

record Flags =
  loginsStr :: string
  loginsFrom :: string
  passwordsStr :: string
  passwordsFrom :: string
  colonSeparatedFrom :: string
  conditionIsRegexp :: bool
  numTasks :: int
  retryQueueLength :: int
  args :: "string list"

text \<open>
  What reaches the diagnostic stream: the usage text of \<open>flag.Usage\<close>, a line of the
  \<open>log\<close> package (\<open>log.Print\<close>, \<open>log.Fatal\<close>) with its message, the \<open>[ATTEMPT]\<close> line of
  \<open>-V\<close>, and the response header and body echoed by \<open>-v\<close>.
\<close>

datatype diag =
    UsageText
  | LogLine string
  | AttemptLine string string string nat
  | HeaderDump string
  | BodyDump string

text \<open>
  \<open>main\<close> from \<open>flag.Parse()\<close> to the \<open>go worker(i)\<close> loop. It either leaves the process
  (\<open>os.Exit\<close> after what it printed; \<open>log.Fatal\<close> prints its message and exits with 1),
  panics (\<open>regexp.MustCompile\<close> on a bad pattern, \<open>make\<close> or \<open>wg.Add\<close> on a negative
  number), or has started its workers. No request is sent before a worker runs.
  \<open>url_Parse\<close> gives the error of \<open>url.Parse\<close>, if any; \<open>regexp_ok\<close> tells whether a pattern
  compiles; \<open>proxy\<close> is the value of \<open>HYDRA_PROXY\<close>.
\<close>

datatype startup = Exit "diag list" int | Panic | WorkersStarted nat

definition main_startup ::
  "Flags \<Rightarrow> (string \<Rightarrow> string option) \<Rightarrow> (string \<Rightarrow> bool) \<Rightarrow> string \<Rightarrow> startup" where
  "main_startup f url_Parse regexp_ok proxy =
     (if length (args f) \<noteq> 3 then Exit [UsageText] 1
      else if loginsStr f \<noteq> [] \<and> loginsFrom f \<noteq> []
        then Exit [LogLine ''both -l and -L are specified''] 1
      else if passwordsStr f \<noteq> [] \<and> passwordsFrom f \<noteq> []
        then Exit [LogLine ''both -p and -P are specified''] 1
      else if colonSeparatedFrom f \<noteq> [] \<and>
              (loginsStr f \<noteq> [] \<or> loginsFrom f \<noteq> [] \<or>
               passwordsStr f \<noteq> [] \<or> passwordsFrom f \<noteq> [])
        then Exit [LogLine ''both -C and one of -l/-L/-p/-P are specified''] 1
      else if colonSeparatedFrom f = [] \<and> loginsStr f = [] \<and> loginsFrom f = []
        then Exit [LogLine ''no logins are specified''] 1
      else if colonSeparatedFrom f = [] \<and> passwordsStr f = [] \<and> passwordsFrom f = []
        then Exit [LogLine ''no passwords are specified''] 1
      else
        (case url_Parse (args f ! 0) of
           Some e \<Rightarrow> Exit [LogLine (''invalid URL: '' @ e)] 1
         | None \<Rightarrow>
             if conditionIsRegexp f \<and> \<not> regexp_ok (args f ! 2) then Panic
             else
               (case (if proxy \<noteq> [] then url_Parse proxy else None) of
                  Some e \<Rightarrow> Exit [LogLine (''invalid proxy URL: '' @ e)] 1
                | None \<Rightarrow>
                    if retryQueueLength f < 0 \<or> numTasks f < 0 then Panic
                    else WorkersStarted (nat (numTasks f)))))"

text \<open>
  The configurations the flag checks are there to reject, as the specification names
  them: conflicting credential flags (\<open>-l\<close> with \<open>-L\<close>, \<open>-p\<close> with \<open>-P\<close>, \<open>-C\<close> with any
  of the four), and missing logins or passwords when no \<open>-C\<close> file supplies the pairs.
\<close>

definition conflicting_flags :: "Flags \<Rightarrow> bool" where
  "conflicting_flags f =
     ((loginsStr f \<noteq> [] \<and> loginsFrom f \<noteq> []) \<or>
      (passwordsStr f \<noteq> [] \<and> passwordsFrom f \<noteq> []) \<or>
      (colonSeparatedFrom f \<noteq> [] \<and>
         (loginsStr f \<noteq> [] \<or> loginsFrom f \<noteq> [] \<or>
          passwordsStr f \<noteq> [] \<or> passwordsFrom f \<noteq> [])))"

definition missing_credentials :: "Flags \<Rightarrow> bool" where
  "missing_credentials f =
     (colonSeparatedFrom f = [] \<and>
      ((loginsStr f = [] \<and> loginsFrom f = []) \<or>
       (passwordsStr f = [] \<and> passwordsFrom f = [])))"

text \<open>
  A command line with both \<open>-l\<close> and \<open>-L\<close>, and the three positional arguments; every
  URL parses and every pattern compiles.
\<close>

definition every_url_parses :: "string \<Rightarrow> string option" where
  "every_url_parses u = None"

definition every_pattern_compiles :: "string \<Rightarrow> bool" where
  "every_pattern_compiles p = True"

definition both_logins :: Flags where
  "both_logins =
     \<lparr>loginsStr = ''admin'', loginsFrom = ''users.txt'', passwordsStr = ''secret'',
      passwordsFrom = [], colonSeparatedFrom = [], conditionIsRegexp = False,
      numTasks = 16, retryQueueLength = 1024,
      args = [''http://127.0.0.1/login'', ''user=^USER^&pass=^PASS^'', ''login failed'']\<rparr>"

text \<open>The same flags without positional arguments.\<close>

definition no_arguments :: Flags where
  "no_arguments = both_logins\<lparr>args := []\<rparr>"


section \<open>The request of one attempt\<close>

text \<open>The global variables a worker reads; a compiled pattern is its \<open>Match\<close> method.\<close>

record Config =
  postURL :: string
  host :: string
  data :: string
  condition :: string
  rCondition :: "(string \<Rightarrow> bool) option"
  invertedCondition :: bool
  firstOnly :: bool
  verbose :: bool
  showAttempts :: bool
  headersAdd :: Headers
  headersReplace :: Headers

definition defaultUserAgent :: string where
  "defaultUserAgent = ''Mozilla/5.0 (Hydra)''"

definition defaultContentType :: string where
  "defaultContentType = ''application/x-www-form-urlencoded''"

text \<open>The two \<open>strings.Replace\<close> calls that render the request body.\<close>

definition postData :: "string \<Rightarrow> Job \<Rightarrow> string" where
  "postData template job =
     (let postData = Replace template ''^USER^'' (QueryEscape (user job)) (- 1)
      in Replace postData ''^PASS^'' (QueryEscape (pass job)) (- 1))"

text \<open>
  \<open>http.Header\<close> is a map from a key to its list of values. \<open>Add\<close> and \<open>Set\<close> both work
  on the canonical form of the key (\<open>textproto.CanonicalMIMEHeaderKey\<close>, here \<open>canon\<close>):
  \<open>Add\<close> appends to the values of the key, \<open>Set\<close> replaces them by the one value.
\<close>

type_synonym http_Header = "string \<rightharpoonup> string list"

definition Header_Add ::
  "(string \<Rightarrow> string) \<Rightarrow> http_Header \<Rightarrow> string \<Rightarrow> string \<Rightarrow> http_Header" where
  "Header_Add canon h k v =
     h(canon k \<mapsto> (case h (canon k) of None \<Rightarrow> [] | Some vs \<Rightarrow> vs) @ [v])"

definition Header_Set ::
  "(string \<Rightarrow> string) \<Rightarrow> http_Header \<Rightarrow> string \<Rightarrow> string \<Rightarrow> http_Header" where
  "Header_Set canon h k v = h(canon k \<mapsto> [v])"

text \<open>
  The five \<open>req.Header.Add\<close> calls on the empty header of the new request, in their order.
\<close>

definition standard_headers :: "Config \<Rightarrow> string \<Rightarrow> Headers" where
  "standard_headers cfg content =
     [\<lparr>key = ''Host'', val = host cfg\<rparr>,
      \<lparr>key = ''User-Agent'', val = defaultUserAgent\<rparr>,
      \<lparr>key = ''Content-Length'', val = Itoa (length content)\<rparr>,
      \<lparr>key = ''Content-Type'', val = defaultContentType\<rparr>,
      \<lparr>key = ''Connection'', val = ''Keep-Alive''\<rparr>]"

text \<open>The loops over \<open>headersAdd\<close> and \<open>headersReplace\<close>.\<close>

fun add_loop :: "(string \<Rightarrow> string) \<Rightarrow> Headers \<Rightarrow> http_Header \<Rightarrow> http_Header" where
  "add_loop canon [] h = h"
| "add_loop canon (x # xs) h = add_loop canon xs (Header_Add canon h (key x) (val x))"

fun replace_loop :: "(string \<Rightarrow> string) \<Rightarrow> Headers \<Rightarrow> http_Header \<Rightarrow> http_Header" where
  "replace_loop canon [] h = h"
| "replace_loop canon (x # xs) h = replace_loop canon xs (Header_Set canon h (key x) (val x))"

definition request_header :: "(string \<Rightarrow> string) \<Rightarrow> Config \<Rightarrow> string \<Rightarrow> http_Header" where
  "request_header canon cfg content =
     replace_loop canon (headersReplace cfg)
       (add_loop canon (headersAdd cfg)
          (add_loop canon (standard_headers cfg content) Map.empty))"

text \<open>The values a list of header flags gives for the canonical key \<open>k\<close>, in flag order.\<close>

definition values_for :: "(string \<Rightarrow> string) \<Rightarrow> string \<Rightarrow> Headers \<Rightarrow> string list" where
  "values_for canon k hs = map val (filter (\<lambda>x. canon (key x) = k) hs)"

text \<open>
  The request \<open>http.NewRequest\<close> gives, with the fields the transport reads: \<open>Host\<close> is
  the host of the URL (the same URL \<open>main\<close> parsed into \<open>host\<close>), \<open>ContentLength\<close> the
  length of the body.
\<close>

record Request =
  req_method :: string
  req_url :: string
  req_host :: string
  req_header :: http_Header
  req_body :: string
  req_content_length :: nat

definition new_request :: "(string \<Rightarrow> string) \<Rightarrow> Config \<Rightarrow> Job \<Rightarrow> Request" where
  "new_request canon cfg job =
     (let postData = postData (data cfg) job
      in \<lparr>req_method = ''POST'', req_url = postURL cfg, req_host = host cfg,
          req_header = request_header canon cfg postData, req_body = postData,
          req_content_length = length postData\<rparr>)"

text \<open>
  What \<open>net/http\<close> writes when it sends a request (\<open>Request.Write\<close>): the \<open>Host\<close> line from
  the request's \<open>Host\<close> field, one \<open>User-Agent\<close> line with the first value the header map
  has for that key (the library's own name when the map has none), and the
  \<open>Content-Length\<close> line from the request's \<open>ContentLength\<close> field. The entries of the
  header map for \<open>Host\<close> and \<open>Content-Length\<close> are not written.
\<close>

definition sent_Host :: "Request \<Rightarrow> string" where
  "sent_Host req = req_host req"

definition sent_User_Agent :: "string \<Rightarrow> Request \<Rightarrow> string" where
  "sent_User_Agent library_name req =
     (case req_header req ''User-Agent'' of
        Some (v # vs) \<Rightarrow> v
      | _ \<Rightarrow> library_name)"

definition sent_Content_Length :: "Request \<Rightarrow> string" where
  "sent_Content_Length req = Itoa (req_content_length req)"


section \<open>The state the workers share\<close>

text \<open>
  The two channels with what they hold and their capacities (\<open>sent\<close> records every pair
  that has been put into \<open>jobs\<close>), the result sink with the lines written through the
  variable \<open>out\<close> and whether the file \<open>out\<close> names is closed, the diagnostic stream, the
  mutex \<open>m\<close> with the goroutine that holds it, and the status the process has exited
  with, once \<open>os.Exit\<close> has been called or \<open>main\<close> has returned.
\<close>

record World =
  jobs :: "Job list"
  jobs_cap :: nat
  jobs_closed :: bool
  sent :: "Job list"
  retry :: "Job list"
  retry_cap :: nat
  out :: "string list"
  out_closed :: bool
  stderr :: "diag list"
  mutex :: "nat option"
  exit_status :: "int option"

definition log_Print :: "string \<Rightarrow> World \<Rightarrow> World" where
  "log_Print e w = w\<lparr>stderr := stderr w @ [LogLine e]\<rparr>"

text \<open>\<open>select { case retry <- job: default: }\<close>: the send happens if the buffer has room.\<close>

definition retry_send :: "Job \<Rightarrow> World \<Rightarrow> World" where
  "retry_send job w =
     (if length (retry w) < retry_cap w then w\<lparr>retry := retry w @ [job]\<rparr> else w)"

text \<open>
  \<open>fmt.Fprintf(out, ...)\<close> and \<open>out.Close()\<close>, with the error they return: a closed file
  takes no write and no second close.
\<close>

definition Fprintf_out :: "string \<Rightarrow> World \<Rightarrow> string option \<times> World" where
  "Fprintf_out line w =
     (if out_closed w then (Some ''file already closed'', w)
      else (None, w\<lparr>out := out w @ [line]\<rparr>))"

definition out_Close :: "World \<Rightarrow> string option \<times> World" where
  "out_Close w =
     (if out_closed w then (Some ''file already closed'', w)
      else (None, w\<lparr>out_closed := True\<rparr>))"

text \<open>\<open>if err != nil { log.Print(err) }\<close>\<close>

definition log_if_error :: "string option \<Rightarrow> World \<Rightarrow> World" where
  "log_if_error err w = (case err of None \<Rightarrow> w | Some e \<Rightarrow> log_Print e w)"

text \<open>The line \<open>"%s:%s\\n"\<close> of a pair.\<close>

definition result_line :: "Job \<Rightarrow> string" where
  "result_line job = user job @ '':'' @ pass job @ [CHR 0x0A]"


section \<open>One worker, statement by statement\<close>

text \<open>
  \<open>safeExit\<close> when no other worker holds the mutex: close the sink between \<open>m.Lock()\<close>
  and \<open>m.Unlock()\<close>, log the error of the close, \<open>os.Exit(0)\<close>.
\<close>

definition safeExit :: "World \<Rightarrow> World" where
  "safeExit w =
     (let (err, w1) = out_Close w;
          w2 = log_if_error err w1
      in w2\<lparr>exit_status := Some 0\<rparr>)"

text \<open>The success evaluator: the variable \<open>failed\<close> at the test \<open>if failed\<close>.\<close>

definition failed :: "Config \<Rightarrow> string \<Rightarrow> bool" where
  "failed cfg body =
     (let failed = (case rCondition cfg of
                      Some re \<Rightarrow> re body
                    | None \<Rightarrow> Contains body (condition cfg))
      in if invertedCondition cfg then \<not> failed else failed)"

text \<open>
  What one iteration of the worker's loop does with the pair it has taken: \<open>Continue\<close> is
  the next iteration of the loop, \<open>Exited\<close> the end of the process by \<open>os.Exit\<close>.
\<close>

datatype flow = Continue World | Exited World

text \<open>The end of the iteration for a pair that has not failed: write it, then \<open>-f\<close>.\<close>

definition report :: "Config \<Rightarrow> Job \<Rightarrow> World \<Rightarrow> flow" where
  "report cfg job w =
     (let (err, w1) = Fprintf_out (result_line job) w;
          w2 = log_if_error err w1
      in if firstOnly cfg then Exited (safeExit w2) else Continue w2)"

text \<open>
  The outcome of \<open>client.Do\<close> and \<open>ioutil.ReadAll\<close>: the error of \<open>Do\<close>, or the response
  header with the error of \<open>ReadAll\<close>, or the response header with the body.
\<close>

datatype reply = DoError string | ReadAllError string string | Response string string

definition show_attempt :: "Config \<Rightarrow> Job \<Rightarrow> nat \<Rightarrow> World \<Rightarrow> World" where
  "show_attempt cfg job n w =
     (if showAttempts cfg
      then w\<lparr>stderr := stderr w @ [AttemptLine (host cfg) (user job) (pass job) n]\<rparr>
      else w)"

definition echo :: "Config \<Rightarrow> diag \<Rightarrow> World \<Rightarrow> World" where
  "echo cfg d w = (if verbose cfg then w\<lparr>stderr := stderr w @ [d]\<rparr> else w)"

text \<open>
  The body of the loop of \<open>worker\<close> behind the \<open>select\<close>, for worker \<open>n\<close> and the pair
  \<open>job\<close>; \<open>server\<close> answers the request.
\<close>

definition attempt ::
  "(string \<Rightarrow> string) \<Rightarrow> Config \<Rightarrow> nat \<Rightarrow> (Request \<Rightarrow> reply) \<Rightarrow> Job \<Rightarrow> World \<Rightarrow> flow" where
  "attempt canon cfg n server job w =
     (let w0 = show_attempt cfg job n w;
          req = new_request canon cfg job
      in case server req of
           DoError err \<Rightarrow> Continue (retry_send job (log_Print err w0))
         | ReadAllError hdr err \<Rightarrow>
             Continue (retry_send job (log_Print err (echo cfg (HeaderDump hdr) w0)))
         | Response hdr body \<Rightarrow>
             (let w1 = echo cfg (BodyDump body) (echo cfg (HeaderDump hdr) w0)
              in if failed cfg body then Continue w1 else report cfg job w1))"

text \<open>
  The \<open>select\<close> at the top of the loop. A receive from \<open>jobs\<close> can proceed when the channel
  holds a pair or is closed, a receive from \<open>retry\<close> when it holds a pair; Go chooses among
  the cases that can proceed, and takes \<open>default\<close> when none can. The result lists the
  cases that can be chosen.
\<close>

datatype selected = Received Job bool World | JobsClosed | Default

definition recv_jobs :: "World \<Rightarrow> selected list" where
  "recv_jobs w =
     (case jobs w of
        job # rest \<Rightarrow> [Received job True (w\<lparr>jobs := rest\<rparr>)]
      | [] \<Rightarrow> if jobs_closed w then [JobsClosed] else [])"

definition recv_retry :: "bool \<Rightarrow> World \<Rightarrow> selected list" where
  "recv_retry ok w =
     (case retry w of
        job # rest \<Rightarrow> [Received job ok (w\<lparr>retry := rest\<rparr>)]
      | [] \<Rightarrow> [])"

definition select :: "bool \<Rightarrow> World \<Rightarrow> selected list" where
  "select ok w =
     (let ready = (if ok then recv_jobs w @ recv_retry ok w else recv_retry ok w)
      in if ready = [] then [Default] else ready)"

text \<open>
  The loop of \<open>worker\<close>, run on its own. Each iteration takes one entry of a schedule: the
  number that picks among the ready cases of the \<open>select\<close>, and the server's behaviour
  for this attempt. The worker has returned (\<open>Returned\<close>, after \<open>break loop\<close>), has ended
  the process (\<open>Stopped\<close>), or is at the top of its loop when the schedule ends (\<open>AtLoop\<close>).
\<close>

datatype finish = Returned World | Stopped World | AtLoop bool World

fun worker ::
  "(string \<Rightarrow> string) \<Rightarrow> Config \<Rightarrow> nat \<Rightarrow> (nat \<times> (Request \<Rightarrow> reply)) list \<Rightarrow> bool \<Rightarrow> World
     \<Rightarrow> finish" where
  "worker canon cfg n [] ok w = AtLoop ok w"
| "worker canon cfg n ((pick, server) # sched) ok w =
     (let ready = select ok w
      in case ready ! (pick mod length ready) of
           Default \<Rightarrow> Returned w
         | JobsClosed \<Rightarrow> worker canon cfg n sched False w
         | Received job ok' w' \<Rightarrow>
             (case attempt canon cfg n server job w' of
                Continue w'' \<Rightarrow> worker canon cfg n sched ok' w''
              | Exited w'' \<Rightarrow> Stopped w''))"

text \<open>The state an iteration ends in.\<close>

fun world_of :: "flow \<Rightarrow> World" where
  "world_of (Continue w) = w"
| "world_of (Exited w) = w"

text \<open>
  What an attempt that ends in a transient error leaves behind: the log line after what
  was echoed, the pair at the end of the retry buffer if there was room and nowhere
  otherwise, and nothing else changed.
\<close>

definition transient :: "Config \<Rightarrow> Job \<Rightarrow> nat \<Rightarrow> diag list \<Rightarrow> string \<Rightarrow> World \<Rightarrow> World \<Rightarrow> bool" where
  "transient cfg job n echoed err w w' =
     (stderr w' = stderr (show_attempt cfg job n w) @ echoed @ [LogLine err] \<and>
      retry w' = (if length (retry w) < retry_cap w then retry w @ [job] else retry w) \<and>
      retry_cap w' = retry_cap w \<and> jobs w' = jobs w \<and> jobs_closed w' = jobs_closed w \<and>
      out w' = out w \<and> out_closed w' = out_closed w \<and> exit_status w' = exit_status w)"


section \<open>The scanner\<close>

text \<open>
  A file that has been opened: its bytes, and the error a read ends with, if it does not
  end with the end of the file.
\<close>

record File =
  content :: string
  read_error :: "string option"

text \<open>
  \<open>bufio.Scanner\<close> with its default split function \<open>ScanLines\<close> and its default buffer:
  \<open>Scan\<close> on what is left of the input gives the next line, without its end-of-line
  marker (a line feed, and one carriage return before it), and what is left behind it.
  A line that does not fit into the buffer of \<open>MaxScanTokenSize\<close> bytes stops the scanner
  with \<open>ErrTooLong\<close>.
\<close>

definition MaxScanTokenSize :: nat where
  "MaxScanTokenSize = 64 * 1024"

definition ErrTooLong :: string where
  "ErrTooLong = ''bufio.Scanner: token too long''"

definition dropCR :: "string \<Rightarrow> string" where
  "dropCR line = (if line \<noteq> [] \<and> last line = CHR 0x0D then butlast line else line)"

datatype scanned = Token string string | TooLong | EndOfInput

definition Scan :: "string \<Rightarrow> scanned" where
  "Scan input =
     (if input = [] then EndOfInput
      else
        (let line = takeWhile (\<lambda>c. c \<noteq> CHR 0x0A) input
         in if MaxScanTokenSize \<le> length line then TooLong
            else Token (dropCR line) (drop (length line + 1) input)))"

text \<open>
  The loop \<open>for scanner.Scan() { lines = append(lines, scanner.Text()) }\<close> of
  \<open>readlines\<close>: the lines the scanner delivers, and whether it stopped with \<open>ErrTooLong\<close>.
\<close>

function scan_loop :: "string \<Rightarrow> string list \<times> bool" where
  "scan_loop input =
     (case Scan input of
        Token line rest \<Rightarrow> (let (lines, too_long) = scan_loop rest in (line # lines, too_long))
      | TooLong \<Rightarrow> ([], True)
      | EndOfInput \<Rightarrow> ([], False))"
  by pat_completeness auto
termination
  by (relation "measure length") (auto simp: Scan_def Let_def split: if_splits)

declare scan_loop.simps [simp del]

text \<open>\<open>scanner.Err()\<close> behind the loop.\<close>

definition scanner_Err :: "bool \<Rightarrow> string option \<Rightarrow> string option" where
  "scanner_Err too_long rerr = (if too_long then Some ErrTooLong else rerr)"

text \<open>
  \<open>readlines\<close> on the result of \<open>os.Open\<close>: \<open>Inl\<close> is the error that \<open>log.Fatal\<close> prints.
\<close>

definition readlines :: "string + File \<Rightarrow> string + string list" where
  "readlines opened =
     (case opened of
        Inl err \<Rightarrow> Inl err
      | Inr f \<Rightarrow>
          (let (lines, too_long) = scan_loop (content f)
           in case scanner_Err too_long (read_error f) of
                Some err \<Rightarrow> Inl err
              | None \<Rightarrow> Inr lines))"

text \<open>\<open>strings.Split(s, sep)\<close> is \<open>genSplit(s, sep, 0, -1)\<close>.\<close>

definition Split :: "string \<Rightarrow> string \<Rightarrow> string list" where
  "Split s sep = SplitN s sep (- 1)"


section \<open>The goroutines, statement by statement\<close>

text \<open>
  Where a goroutine is. A worker is at the \<open>select\<close> at the top of its loop (with its
  variable \<open>ok\<close>), at the attempt on the pair it has taken (lines 173 to 237), at one of
  the statements from \<open>m.Lock()\<close> before the write to \<open>os.Exit(0)\<close> in \<open>safeExit\<close> (named
  by their line numbers in \<open>hydra.go\<close>), or it has returned. The goroutine that waits for
  a signal does not exist (\<open>Idle\<close>), waits (\<open>Await\<close>), or is in \<open>safeExit\<close>.
\<close>

datatype pc =
    Select bool
  | Attempt Job bool
  | Lock239 Job bool
  | Fprintf240 Job bool
  | Unlock241 "string option" bool
  | Print243 "string option" bool
  | If246 bool
  | Lock131
  | Close132
  | Unlock133 "string option"
  | Print135 "string option"
  | Exit138
  | Done250
  | Idle
  | Await

text \<open>
  What a statement takes from outside: the case the \<open>select\<close> chooses among those that
  can proceed, the outcome of the request, or nothing.
\<close>

datatype input = Go | Pick nat | Reply reply

text \<open>Lines 173 to 237 for worker \<open>n\<close>: from \<open>-V\<close> to the test \<open>if failed\<close>.\<close>

definition served :: "Config \<Rightarrow> nat \<Rightarrow> Job \<Rightarrow> bool \<Rightarrow> reply \<Rightarrow> World \<Rightarrow> pc \<times> World" where
  "served cfg n job ok r w =
     (let w0 = show_attempt cfg job n w
      in case r of
           DoError err \<Rightarrow> (Select ok, retry_send job (log_Print err w0))
         | ReadAllError hdr err \<Rightarrow>
             (Select ok, retry_send job (log_Print err (echo cfg (HeaderDump hdr) w0)))
         | Response hdr body \<Rightarrow>
             (let w1 = echo cfg (BodyDump body) (echo cfg (HeaderDump hdr) w0)
              in if failed cfg body then (Select ok, w1) else (Lock239 job ok, w1)))"

text \<open>
  One statement of goroutine \<open>i\<close>. \<open>m.Lock()\<close> waits while another goroutine holds \<open>m\<close>;
  a statement that is given an input it does not take waits as well.
\<close>

fun step :: "Config \<Rightarrow> nat \<Rightarrow> input \<Rightarrow> pc \<Rightarrow> World \<Rightarrow> pc \<times> World" where
  "step cfg i (Pick k) (Select ok) w =
     (let ready = select ok w
      in case ready ! (k mod length ready) of
           Default \<Rightarrow> (Done250, w)
         | JobsClosed \<Rightarrow> (Select False, w)
         | Received job ok' w' \<Rightarrow> (Attempt job ok', w'))"
| "step cfg i (Reply r) (Attempt job ok) w = served cfg i job ok r w"
| "step cfg i Go (Lock239 job ok) w =
     (if mutex w = None then (Fprintf240 job ok, w\<lparr>mutex := Some i\<rparr>)
      else (Lock239 job ok, w))"
| "step cfg i Go (Fprintf240 job ok) w =
     (let (err, w') = Fprintf_out (result_line job) w in (Unlock241 err ok, w'))"
| "step cfg i Go (Unlock241 err ok) w = (Print243 err ok, w\<lparr>mutex := None\<rparr>)"
| "step cfg i Go (Print243 err ok) w = (If246 ok, log_if_error err w)"
| "step cfg i Go (If246 ok) w = (if firstOnly cfg then Lock131 else Select ok, w)"
| "step cfg i Go Lock131 w =
     (if mutex w = None then (Close132, w\<lparr>mutex := Some i\<rparr>) else (Lock131, w))"
| "step cfg i Go Close132 w = (let (err, w') = out_Close w in (Unlock133 err, w'))"
| "step cfg i Go (Unlock133 err) w = (Print135 err, w\<lparr>mutex := None\<rparr>)"
| "step cfg i Go (Print135 err) w = (Exit138, log_if_error err w)"
| "step cfg i Go Exit138 w = (Exit138, w\<lparr>exit_status := Some 0\<rparr>)"
| "step cfg i x p w = (p, w)"

text \<open>
  What \<open>main\<close> reads behind the start of the workers: the flags, \<open>-o\<close>, the error of
  \<open>os.OpenFile\<close> on the output file, and what \<open>os.Open\<close> gives for a path.
\<close>

record Env =
  flags :: Flags
  outputTo :: string
  OpenFile :: "string \<Rightarrow> string option"
  os_Open :: "string \<Rightarrow> string + File"

text \<open>
  Where \<open>main\<close> is, from line 341 on. The scanner loop carries what is left of the file
  and the file's read error; the \<open>range\<close> loops carry the passwords and logins still to
  come. \<open>Inner393 pw us rest logins\<close> is the inner loop for the password \<open>pw\<close> with the
  logins \<open>us\<close> to come, and the passwords \<open>rest\<close> behind it.
\<close>

datatype mpc =
    Line341
  | Line358
  | Scan366 string "string option"
  | Send372 Job string "string option"
  | Err374 "string option"
  | Line380
  | Line386 "string list"
  | Outer392 "string list" "string list"
  | Inner393 string "string list" "string list" "string list"
  | Close399
  | Wait400
  | Return401
  | Ended

record System =
  world :: World
  workers :: "pc list"
  handler :: pc
  main_pc :: mpc

text \<open>
  \<open>jobs <- job\<close>: the send happens when the buffer of the channel has room, and waits
  otherwise (\<open>None\<close>). A worker never waits in a receive, so there is no receiver to hand
  the pair to directly. \<open>sent\<close> keeps every pair a send has put into the channel.
\<close>

definition jobs_send :: "Job \<Rightarrow> World \<Rightarrow> World option" where
  "jobs_send job w =
     (if length (jobs w) < jobs_cap w
      then Some (w\<lparr>jobs := jobs w @ [job], sent := sent w @ [job]\<rparr>)
      else None)"

text \<open>\<open>log.Fatal\<close>: the message on the diagnostic stream, then \<open>os.Exit(1)\<close>.\<close>

definition log_Fatal :: "string \<Rightarrow> System \<Rightarrow> System" where
  "log_Fatal msg s = s\<lparr>world := (log_Print msg (world s))\<lparr>exit_status := Some 1\<rparr>\<rparr>"

text \<open>
  One statement of \<open>main\<close>. At its return the deferred calls run (\<open>out.Close()\<close> when
  \<open>-o\<close> is given, without the mutex) and the process ends with status 0.
\<close>

definition main_step :: "Env \<Rightarrow> System \<Rightarrow> System" where
  "main_step env s =
     (case main_pc s of
        Line341 \<Rightarrow>
          if outputTo env \<noteq> [] then
            (case OpenFile env (outputTo env) of
               Some err \<Rightarrow> log_Fatal err s
             | None \<Rightarrow> s\<lparr>world := (world s)\<lparr>out_closed := False\<rparr>,
                         handler := Await, main_pc := Line358\<rparr>)
          else s\<lparr>main_pc := Line358\<rparr>
      | Line358 \<Rightarrow>
          if colonSeparatedFrom (flags env) \<noteq> [] then
            (case os_Open env (colonSeparatedFrom (flags env)) of
               Inl err \<Rightarrow> log_Fatal err s
             | Inr f \<Rightarrow> s\<lparr>main_pc := Scan366 (content f) (read_error f)\<rparr>)
          else s\<lparr>main_pc := Line380\<rparr>
      | Scan366 input rerr \<Rightarrow>
          (case Scan input of
             Token line rest \<Rightarrow>
               (let lp = SplitN line '':'' 2
                in if length lp < 2 then s\<lparr>main_pc := Scan366 rest rerr\<rparr>
                   else s\<lparr>main_pc := Send372 \<lparr>user = lp ! 0, pass = lp ! 1\<rparr> rest rerr\<rparr>)
           | TooLong \<Rightarrow> s\<lparr>main_pc := Err374 (scanner_Err True rerr)\<rparr>
           | EndOfInput \<Rightarrow> s\<lparr>main_pc := Err374 (scanner_Err False rerr)\<rparr>)
      | Send372 job rest rerr \<Rightarrow>
          (case jobs_send job (world s) of
             Some w \<Rightarrow> s\<lparr>world := w, main_pc := Scan366 rest rerr\<rparr>
           | None \<Rightarrow> s)
      | Err374 err \<Rightarrow>
          (case err of
             Some e \<Rightarrow> log_Fatal e s
           | None \<Rightarrow> s\<lparr>main_pc := Close399\<rparr>)
      | Line380 \<Rightarrow>
          (case (if loginsFrom (flags env) \<noteq> []
                 then readlines (os_Open env (loginsFrom (flags env)))
                 else Inr (Split (loginsStr (flags env)) '':'')) of
             Inl err \<Rightarrow> log_Fatal err s
           | Inr logins \<Rightarrow> s\<lparr>main_pc := Line386 logins\<rparr>)
      | Line386 logins \<Rightarrow>
          (case (if passwordsFrom (flags env) \<noteq> []
                 then readlines (os_Open env (passwordsFrom (flags env)))
                 else Inr (Split (passwordsStr (flags env)) '':'')) of
             Inl err \<Rightarrow> log_Fatal err s
           | Inr passwords \<Rightarrow> s\<lparr>main_pc := Outer392 passwords logins\<rparr>)
      | Outer392 passwords logins \<Rightarrow>
          (case passwords of
             [] \<Rightarrow> s\<lparr>main_pc := Close399\<rparr>
           | pw # rest \<Rightarrow> s\<lparr>main_pc := Inner393 pw logins rest logins\<rparr>)
      | Inner393 pw us rest logins \<Rightarrow>
          (case us of
             [] \<Rightarrow> s\<lparr>main_pc := Outer392 rest logins\<rparr>
           | u # us' \<Rightarrow>
               (case jobs_send \<lparr>user = u, pass = pw\<rparr> (world s) of
                  Some w \<Rightarrow> s\<lparr>world := w, main_pc := Inner393 pw us' rest logins\<rparr>
                | None \<Rightarrow> s))
      | Close399 \<Rightarrow> s\<lparr>world := (world s)\<lparr>jobs_closed := True\<rparr>, main_pc := Wait400\<rparr>
      | Wait400 \<Rightarrow>
          if list_all (\<lambda>p. p = Done250) (workers s) then s\<lparr>main_pc := Return401\<rparr> else s
      | Return401 \<Rightarrow>
          s\<lparr>world := (world s)\<lparr>out_closed := (outputTo env \<noteq> [] \<or> out_closed (world s)),
                               exit_status := Some 0\<rparr>,
            main_pc := Ended\<rparr>
      | Ended \<Rightarrow> s)"

text \<open>
  What the scheduler and the outside decide: worker \<open>i\<close> runs its next statement with an
  input, \<open>main\<close> runs its next statement, a signal arrives, or the goroutine that
  handles it runs its next statement (it takes the mutex under the number behind the
  workers'). Nothing runs once the process has exited.
\<close>

datatype event = Worker nat input | Main | Signal | Handler

fun exec :: "Config \<Rightarrow> Env \<Rightarrow> event \<Rightarrow> System \<Rightarrow> System" where
  "exec cfg env (Worker i x) s =
     (if exit_status (world s) = None \<and> i < length (workers s)
      then (let (p, w) = step cfg i x (workers s ! i) (world s)
            in s\<lparr>world := w, workers := (workers s)[i := p]\<rparr>)
      else s)"
| "exec cfg env Main s = (if exit_status (world s) = None then main_step env s else s)"
| "exec cfg env Signal s =
     (if exit_status (world s) = None \<and> handler s = Await then s\<lparr>handler := Lock131\<rparr> else s)"
| "exec cfg env Handler s =
     (if exit_status (world s) = None
      then (let (p, w) = step cfg (length (workers s)) Go (handler s) (world s)
            in s\<lparr>world := w, handler := p\<rparr>)
      else s)"

definition run :: "Config \<Rightarrow> Env \<Rightarrow> event list \<Rightarrow> System \<Rightarrow> System" where
  "run cfg env evs s = fold (exec cfg env) evs s"

text \<open>
  \<open>N\<close> workers have been started on a \<open>jobs\<close> channel of capacity \<open>N\<close>; nothing is sent,
  written, locked or closed yet.
\<close>

definition started :: "nat \<Rightarrow> nat \<Rightarrow> World \<times> pc list" where
  "started N cap =
     (\<lparr>jobs = [], jobs_cap = N, jobs_closed = False, sent = [], retry = [], retry_cap = cap,
       out = [], out_closed = False, stderr = [], mutex = None, exit_status = None\<rparr>,
      replicate N (Select True))"

text \<open>The process behind the start of the workers, with \<open>main\<close> at a given place.\<close>

definition process :: "nat \<Rightarrow> nat \<Rightarrow> mpc \<Rightarrow> System" where
  "process N cap at =
     \<lparr>world = fst (started N cap), workers = snd (started N cap), handler = Idle,
      main_pc = at\<rparr>"


section \<open>Properties of the states, and example runs\<close>

text \<open>
  A worker that has performed its write, a goroutine that holds the mutex, and a
  goroutine that is in \<open>safeExit\<close> or has not got there (the handler of signals is never
  anywhere else).
\<close>

fun wrote :: "pc \<Rightarrow> bool" where
  "wrote (Unlock241 err ok) = True"
| "wrote (Print243 err ok) = True"
| "wrote (If246 ok) = True"
| "wrote Lock131 = True"
| "wrote Close132 = True"
| "wrote (Unlock133 err) = True"
| "wrote (Print135 err) = True"
| "wrote Exit138 = True"
| "wrote p = False"

fun holds_m :: "pc \<Rightarrow> bool" where
  "holds_m (Fprintf240 job ok) = True"
| "holds_m (Unlock241 err ok) = True"
| "holds_m Close132 = True"
| "holds_m (Unlock133 err) = True"
| "holds_m p = False"

fun exiting :: "pc \<Rightarrow> bool" where
  "exiting Idle = True"
| "exiting Await = True"
| "exiting Lock131 = True"
| "exiting Close132 = True"
| "exiting (Unlock133 err) = True"
| "exiting (Print135 err) = True"
| "exiting Exit138 = True"
| "exiting p = False"

text \<open>What holds of every state the process can reach.\<close>

definition lines_inv :: "System \<Rightarrow> bool" where
  "lines_inv s =
     (length (out (world s)) \<le> length (filter wrote (workers s)) \<and> exiting (handler s))"

definition mutex_inv :: "System \<Rightarrow> bool" where
  "mutex_inv s =
     ((\<forall>i. ((i < length (workers s) \<and> holds_m (workers s ! i)) \<or>
            (i = length (workers s) \<and> holds_m (handler s))) = (mutex (world s) = Some i)) \<and>
      (main_pc s = Line341 \<longrightarrow> handler s = Idle))"

text \<open>
  The pairs of the lines of a combined file: a line with a colon gives the text before
  its first colon and the text behind it. The pairs of matrix mode: the passwords outside,
  the logins inside.
\<close>

definition pairs_from :: "string list \<Rightarrow> Job list" where
  "pairs_from lines =
     map (\<lambda>l. \<lparr>user = takeWhile (\<lambda>c. c \<noteq> CHR '':'') l,
               pass = tl (dropWhile (\<lambda>c. c \<noteq> CHR '':'') l)\<rparr>)
       (filter (\<lambda>l. CHR '':'' \<in> set l) lines)"

definition matrix :: "string list \<Rightarrow> string list \<Rightarrow> Job list" where
  "matrix logins passwords =
     concat (map (\<lambda>pw. map (\<lambda>login. \<lparr>user = login, pass = pw\<rparr>) logins) passwords)"

text \<open>
  What \<open>main\<close> has before it, from the scanner loop or the \<open>range\<close> loops on: the pairs
  it has still to send, and the error the scanner will stop with.
\<close>

fun ahead :: "mpc \<Rightarrow> (Job list \<times> string option) option" where
  "ahead (Scan366 input rerr) =
     Some (pairs_from (fst (scan_loop input)), scanner_Err (snd (scan_loop input)) rerr)"
| "ahead (Send372 job rest rerr) =
     Some (job # pairs_from (fst (scan_loop rest)), scanner_Err (snd (scan_loop rest)) rerr)"
| "ahead (Err374 err) = Some ([], err)"
| "ahead (Outer392 passwords logins) = Some (matrix logins passwords, None)"
| "ahead (Inner393 pw us rest logins) =
     Some (map (\<lambda>login. \<lparr>user = login, pass = pw\<rparr>) us @ matrix logins rest, None)"
| "ahead Close399 = Some ([], None)"
| "ahead Wait400 = Some ([], None)"
| "ahead Return401 = Some ([], None)"
| "ahead Ended = Some ([], None)"
| "ahead at = None"

text \<open>
  The configuration of the README, and the same with \<open>-f\<close>; an environment without
  \<open>-o\<close>; a response that does not contain the condition.
\<close>

definition readme_cfg :: Config where
  "readme_cfg =
     \<lparr>postURL = ''http://127.0.0.1/login'', host = ''127.0.0.1'',
      data = ''user=^USER^&pass=^PASS^'', condition = ''login failed'', rCondition = None,
      invertedCondition = False, firstOnly = False, verbose = False, showAttempts = False,
      headersAdd = [], headersReplace = []\<rparr>"

definition first_only_cfg :: Config where
  "first_only_cfg = readme_cfg\<lparr>firstOnly := True\<rparr>"

definition no_such_file :: "string \<Rightarrow> string + File" where
  "no_such_file path = Inl ''no such file or directory''"

definition open_succeeds :: "string \<Rightarrow> string option" where
  "open_succeeds path = None"

definition to_stdout :: Env where
  "to_stdout = \<lparr>flags = both_logins, outputTo = [], OpenFile = open_succeeds, os_Open = no_such_file\<rparr>"

definition ok_reply :: reply where
  "ok_reply = Response [] ''welcome''"

text \<open>
  Two workers and \<open>main\<close> at line 392 with two logins and one password. With \<open>-f\<close>,
  \<open>main\<close> sends both pairs, both attempts succeed, worker 0 writes and unlocks, worker 1
  writes and unlocks, then worker 0 goes through \<open>safeExit\<close>. The shorter runs stop when
  worker 0 has written, and when it is at the \<open>out.Close()\<close> of \<open>safeExit\<close>.
\<close>

definition two_logins :: System where
  "two_logins = process 2 0 (Outer392 [''a''] [''admin'', ''root''])"
definition two_writes :: "event list" where
  "two_writes =
     [Main, Main, Main,
      Worker 0 (Pick 0), Worker 1 (Pick 0),
      Worker 0 (Reply ok_reply), Worker 1 (Reply ok_reply),
      Worker 0 Go, Worker 0 Go, Worker 0 Go,
      Worker 1 Go, Worker 1 Go, Worker 1 Go,
      Worker 0 Go, Worker 0 Go, Worker 0 Go, Worker 0 Go, Worker 0 Go, Worker 0 Go, Worker 0 Go]"

definition until_write :: "event list" where
  "until_write =
     [Main, Main, Worker 0 (Pick 0), Worker 0 (Reply ok_reply), Worker 0 Go, Worker 0 Go]"

definition until_close :: "event list" where
  "until_close =
     [Main, Main, Worker 0 (Pick 0), Worker 0 (Reply ok_reply),
      Worker 0 Go, Worker 0 Go, Worker 0 Go, Worker 0 Go, Worker 0 Go, Worker 0 Go]"

text \<open>
  \<open>-t 0\<close>: no worker and a channel without buffer, one login and one password. Four
  workers, two logins and two passwords. Schedules in which only \<open>main\<close> runs.
\<close>

definition unbuffered :: System where
  "unbuffered = process 0 1024 (Outer392 [''secret''] [''admin''])"

definition two_by_two :: System where
  "two_by_two = process 4 1024 (Outer392 [''a'', ''b''] [''admin'', ''root''])"
definition main_twice :: "event list" where
  "main_twice = [Main, Main]"

definition main_seven_times :: "event list" where
  "main_seven_times = [Main, Main, Main, Main, Main, Main, Main]"

definition main_nine_times :: "event list" where
  "main_nine_times = [Main, Main, Main, Main, Main, Main, Main, Main, Main]"
definition main_once :: "event list" where
  "main_once = [Main]"

text \<open>
  A combined file whose first line has 65536 bytes before its colon, and one with three
  short lines; the process with \<open>main\<close> at the scanner loop over each.
\<close>

definition long_line_file :: string where
  "long_line_file = replicate 65536 CHR ''a'' @ '':b'' @ [CHR 0x0A] @ ''c:d'' @ [CHR 0x0A]"

definition three_lines_file :: string where
  "three_lines_file = ''a:b'' @ [CHR 0x0A] @ ''nocolon'' @ [CHR 0x0A] @ ''c:d:e'' @ [CHR 0x0A]"
definition long_line :: System where
  "long_line = process 16 1024 (Scan366 long_line_file None)"

definition three_lines :: System where
  "three_lines = process 16 1024 (Scan366 three_lines_file None)"

text \<open>
  Header flags \<open>-h "User-Agent: curl"\<close> and \<open>-H "Host: example.org"\<close>; their keys are in
  canonical form already, and canonical keys are left as they are.
\<close>

definition as_written :: "string \<Rightarrow> string" where
  "as_written k = k"

definition with_headers :: Config where
  "with_headers =
     readme_cfg\<lparr>headersAdd := [\<lparr>key = ''User-Agent'', val = ''curl''\<rparr>],
                headersReplace := [\<lparr>key = ''Host'', val = ''example.org''\<rparr>]\<rparr>"

definition admin_secret :: Job where
  "admin_secret = \<lparr>user = ''admin'', pass = ''secret''\<rparr>"

text \<open>
  One worker, two logins and one password; the worker runs its \<open>select\<close> first, then
  \<open>main\<close> runs on.
\<close>

definition one_worker :: System where
  "one_worker = process 1 1024 (Outer392 [''secret''] [''admin'', ''root''])"

definition early_return :: "event list" where
  "early_return = [Worker 0 (Pick 0), Main, Main, Main]"


section \<open>Facts about the string functions\<close>

lemma HasPrefix_prefix: "HasPrefix s p \<longleftrightarrow> prefix p s"
  by (induction s p rule: HasPrefix.induct) auto

lemma Index_None_sublist: "Index s substr = None \<longleftrightarrow> \<not> sublist substr s"
  by (induction s) (auto simp: HasPrefix_prefix sublist_Cons_right)

lemma Contains_sublist: "Contains s substr \<longleftrightarrow> sublist substr s"
  by (simp add: Contains_def Index_None_sublist)

lemma sublist_single: "sublist [c] s \<longleftrightarrow> c \<in> set s"
  by (induction s) (auto simp: sublist_Cons_right)

lemma Index_single:
  "Index s [c] = (if c \<in> set s then Some (length (takeWhile (\<lambda>x. x \<noteq> c) s)) else None)"
  by (induction s) auto

lemma genSplit_loop_colon_1:
  "genSplit_loop s '':'' (Suc 0) =
     (if CHR '':'' \<in> set s
      then [takeWhile (\<lambda>x. x \<noteq> CHR '':'') s, tl (dropWhile (\<lambda>x. x \<noteq> CHR '':'') s)]
      else [s])"
proof -
  let ?P = "\<lambda>x. x \<noteq> CHR '':''"
  let ?m = "length (takeWhile ?P s)"
  have t: "take ?m s = takeWhile ?P s"
    by (rule takeWhile_eq_take [symmetric])
  have "drop (?m + 1) s = tl (drop ?m s)"
    by (simp add: drop_Suc tl_drop)
  also have "drop ?m s = dropWhile ?P s"
    by (rule dropWhile_eq_drop [symmetric])
  finally have d: "drop (Suc ?m) s = tl (dropWhile ?P s)"
    by simp
  show ?thesis
    using t d by (simp add: Index_single)
qed

lemma SplitN_colon_2:
  "SplitN s '':'' 2 =
     (if CHR '':'' \<in> set s
      then [takeWhile (\<lambda>x. x \<noteq> CHR '':'') s, tl (dropWhile (\<lambda>x. x \<noteq> CHR '':'') s)]
      else [s])"
proof (cases s)
  case Nil
  then show ?thesis by (simp add: SplitN_def)
next
  case (Cons a as)
  then have "nat (min 2 (int (length s) + 1)) - 1 = Suc 0"
    by (simp add: min_def)
  then have "SplitN s '':'' 2 = genSplit_loop s '':'' (Suc 0)"
    by (simp add: SplitN_def)
  then show ?thesis
    by (simp only: genSplit_loop_colon_1)
qed


section \<open>Replacing every occurrence\<close>

lemma substitute_no_instance:
  "old \<noteq> [] \<Longrightarrow> Index s old = None \<Longrightarrow> substitute old new s = s"
  by (induction s) (auto simp: HasPrefix_prefix split: if_splits)

lemma substitute_first_instance:
  "old \<noteq> [] \<Longrightarrow> Index s old = Some j \<Longrightarrow>
   substitute old new s = take j s @ new @ substitute old new (drop (j + length old) s)"
proof (induction s arbitrary: j)
  case Nil
  then show ?case by simp
next
  case (Cons c s)
  show ?case
  proof (cases "HasPrefix (c # s) old")
    case True
    with Cons.prems show ?thesis by (simp add: HasPrefix_prefix)
  next
    case False
    with Cons.prems obtain i where i: "Index s old = Some i" "j = Suc i"
      by auto
    from Cons.IH [OF Cons.prems(1) i(1)] False i show ?thesis
      by (simp add: HasPrefix_prefix)
  qed
qed

lemma Index_Some_nonempty: "old \<noteq> [] \<Longrightarrow> Index s old = Some j \<Longrightarrow> s \<noteq> []"
  by (cases s) auto

lemma Replace_loop_substitute:
  "old \<noteq> [] \<Longrightarrow> length s \<le> k \<Longrightarrow> Replace_loop s old new k = substitute old new s"
proof (induction k arbitrary: s)
  case 0
  then show ?case by simp
next
  case (Suc k)
  show ?case
  proof (cases "Index s old")
    case None
    with Suc.prems show ?thesis by (simp add: substitute_no_instance)
  next
    case (Some j)
    with Suc.prems have "s \<noteq> []" by (auto dest: Index_Some_nonempty)
    with Suc.prems have "length (drop (j + length old) s) \<le> k"
      by (cases s; cases old) auto
    with Suc.IH [OF Suc.prems(1)] Some Suc.prems show ?thesis
      by (simp add: substitute_first_instance)
  qed
qed

lemma substitute_same: "substitute old old s = s"
proof (induction "length s" arbitrary: s rule: less_induct)
  case less
  show ?case
  proof (cases s)
    case Nil
    then show ?thesis by simp
  next
    case (Cons c t)
    show ?thesis
    proof (cases "old \<noteq> [] \<and> prefix old s")
      case True
      then obtain zs where zs: "s = old @ zs"
        by (auto simp: prefix_def)
      with True have "length zs < length s" by simp
      then have "substitute old old zs = zs" by (rule less)
      moreover have "drop (length old) (c # t) = zs"
        using zs Cons by simp
      moreover have "prefix old (c # t)"
        using True Cons by simp
      ultimately have "substitute old old (c # t) = old @ zs"
        using True by simp
      with zs Cons show ?thesis by simp
    next
      case False
      have "substitute old old t = t"
        by (rule less) (simp add: Cons)
      with False Cons show ?thesis by auto
    qed
  qed
qed

lemma Replace_all_substitute:
  "old \<noteq> [] \<Longrightarrow> Replace s old new (- 1) = substitute old new s"
  by (simp add: Replace_def Replace_loop_substitute substitute_same)

text \<open>
  An escaped login or password has no \<open>^\<close> in it, so what is put in for a placeholder is
  never a placeholder itself.
\<close>

lemma upperhex_nth: "k < 16 \<Longrightarrow> upperhex ! k \<in> set upperhex"
proof -
  assume "k < 16"
  then have "k < length upperhex" by (simp add: upperhex_def)
  then show ?thesis by (rule nth_mem)
qed

lemma caret_not_hex: "CHR ''^'' \<notin> set upperhex"
  by (simp add: upperhex_def)

lemma shouldEscape_caret: "shouldEscape CHR ''^''"
  by (simp add: shouldEscape_def less_eq_char_def)

lemma escape_byte_no_caret: "CHR ''^'' \<notin> set (escape_byte c)"
proof -
  have "(of_char c :: nat) < 256" by simp
  then have "(of_char c :: nat) div 16 < 16" "(of_char c :: nat) mod 16 < 16"
    by arith+
  then have "upperhex ! ((of_char c :: nat) div 16) \<in> set upperhex"
    "upperhex ! ((of_char c :: nat) mod 16) \<in> set upperhex"
    by (simp_all only: upperhex_nth)
  with caret_not_hex have "upperhex ! ((of_char c :: nat) div 16) \<noteq> CHR ''^''"
    "upperhex ! ((of_char c :: nat) mod 16) \<noteq> CHR ''^''"
    by metis+
  with shouldEscape_caret show ?thesis
    by (auto simp: escape_byte_def)
qed

lemma QueryEscape_no_caret: "CHR ''^'' \<notin> set (QueryEscape s)"
  by (induction s) (simp_all add: QueryEscape_def escape_byte_no_caret)

text \<open>The template of the README, with a login and a password that need escaping.\<close>

lemma postData_example:
  "postData ''user=^USER^&pass=^PASS^'' \<lparr>user = ''a b'', pass = ''p&q^''\<rparr>
     = ''user=a+b&pass=p%26q%5E''"
  by (simp add: postData_def Replace_all_substitute QueryEscape_def escape_byte_def
      shouldEscape_def upperhex_def)


section \<open>Facts about the request header\<close>

lemma add_loop_lookup:
  "add_loop canon xs h k =
     (if values_for canon k xs = [] then h k
      else Some ((case h k of None \<Rightarrow> [] | Some vs \<Rightarrow> vs) @ values_for canon k xs))"
  by (induction xs arbitrary: h) (auto simp: Header_Add_def values_for_def)

lemma replace_loop_lookup:
  "replace_loop canon xs h k =
     (if values_for canon k xs = [] then h k else Some [last (values_for canon k xs)])"
  by (induction xs arbitrary: h) (auto simp: Header_Set_def values_for_def)


section \<open>Facts about one worker\<close>

lemma failed_iff:
  "failed cfg body =
     (let matched = (case rCondition cfg of Some re \<Rightarrow> re body
                     | None \<Rightarrow> sublist (condition cfg) body)
      in if invertedCondition cfg then \<not> matched else matched)"
  by (simp add: failed_def Contains_sublist Let_def split: option.splits)

lemma out_echo [simp]: "out (echo cfg d w) = out w" "out_closed (echo cfg d w) = out_closed w"
  by (simp_all add: echo_def)

lemma out_show_attempt [simp]:
  "out (show_attempt cfg job n w) = out w" "out_closed (show_attempt cfg job n w) = out_closed w"
  by (simp_all add: show_attempt_def)

lemma out_log_if_error [simp]:
  "out (log_if_error err w) = out w" "out_closed (log_if_error err w) = out_closed w"
  by (simp_all add: log_if_error_def log_Print_def split: option.splits)

lemma out_safeExit [simp]: "out (safeExit w) = out w"
  by (simp add: safeExit_def out_Close_def)

lemma out_report:
  "out (world_of (report cfg job w)) = (if out_closed w then out w else out w @ [result_line job])"
  by (simp add: report_def Fprintf_out_def Let_def)

lemma retry_send_fields [simp]:
  "out (retry_send job w) = out w" "out_closed (retry_send job w) = out_closed w"
  "exit_status (retry_send job w) = exit_status w" "jobs (retry_send job w) = jobs w"
  "stderr (retry_send job w) = stderr w" "retry_cap (retry_send job w) = retry_cap w"
  "jobs_closed (retry_send job w) = jobs_closed w"
  by (simp_all add: retry_send_def)

lemma retry_retry_send:
  "retry (retry_send job w) = (if length (retry w) < retry_cap w then retry w @ [job] else retry w)"
  by (simp add: retry_send_def)


text \<open>After an attempt that ends in an error of the transport the loop goes on.\<close>

lemma worker_goes_on:
  assumes "\<And>req. server req = DoError err \<or> (\<exists>hdr. server req = ReadAllError hdr err)"
  shows "worker canon cfg n ((pick, server) # sched) ok w =
     (case select ok w ! (pick mod length (select ok w)) of
        Default \<Rightarrow> Returned w
      | JobsClosed \<Rightarrow> worker canon cfg n sched False w
      | Received job ok' w' \<Rightarrow>
          worker canon cfg n sched ok' (world_of (attempt canon cfg n server job w')))"
proof -
  have "\<exists>w''. attempt canon cfg n server job w' = Continue w''" for job w'
    using assms [of "new_request canon cfg job"]
    by (auto simp: attempt_def Let_def)
  then have cont: "\<exists>w''. attempt canon cfg n server job w' = Continue w''" for job w' .
  show ?thesis
  proof (cases "select ok w ! (pick mod length (select ok w))")
    case (Received job ok' w')
    from cont [of job w'] obtain w'' where "attempt canon cfg n server job w' = Continue w''" ..
    with Received show ?thesis by (simp add: Let_def)
  qed (simp_all add: Let_def)
qed


text \<open>The header map, key by key.\<close>

lemma standard_values:
  "values_for canon k (standard_headers cfg payload) =
     (if canon ''Host'' = k then [host cfg] else []) @
     (if canon ''User-Agent'' = k then [''Mozilla/5.0 (Hydra)''] else []) @
     (if canon ''Content-Length'' = k then [Itoa (length payload)] else []) @
     (if canon ''Content-Type'' = k then [''application/x-www-form-urlencoded''] else []) @
     (if canon ''Connection'' = k then [''Keep-Alive''] else [])"
  by (simp add: values_for_def standard_headers_def defaultUserAgent_def defaultContentType_def)

lemma request_header_lookup:
  "request_header canon cfg payload k =
     (if values_for canon k (headersReplace cfg) \<noteq> []
      then Some [last (values_for canon k (headersReplace cfg))]
      else if values_for canon k (standard_headers cfg payload) @ values_for canon k (headersAdd cfg) = []
        then None
        else Some (values_for canon k (standard_headers cfg payload) @ values_for canon k (headersAdd cfg)))"
  by (simp add: request_header_def replace_loop_lookup add_loop_lookup)

lemma with_headers_values:
  "values_for as_written ''User-Agent'' (headersAdd with_headers) = [''curl'']"
  "values_for as_written ''User-Agent'' (headersReplace with_headers) = []"
  "values_for as_written ''Host'' (headersReplace with_headers) = [''example.org'']"
  by (simp_all add: values_for_def with_headers_def readme_cfg_def as_written_def)


section \<open>Facts about the statements of the goroutines\<close>

text \<open>The attempt of the loop body is the statement \<open>served\<close>, followed by the report.\<close>

lemma attempt_served:
  "attempt canon cfg n server job w =
     (case served cfg n job ok (server (new_request canon cfg job)) w of
        (Lock239 j k, w1) \<Rightarrow> report cfg j w1
      | (p, w') \<Rightarrow> Continue w')"
  by (simp add: attempt_def served_def Let_def split: reply.splits)

lemma select_member: "select ok w ! (k mod length (select ok w)) \<in> set (select ok w)"
proof -
  have "select ok w \<noteq> []"
    by (simp add: select_def Let_def)
  then show ?thesis by simp
qed

lemma select_Received:
  assumes "Received job ok' w' \<in> set (select ok w)"
  shows "out w' = out w" "out_closed w' = out_closed w" "mutex w' = mutex w"
    "sent w' = sent w" "exit_status w' = exit_status w" "jobs_cap w' = jobs_cap w"
  using assms
  by (auto simp: select_def recv_jobs_def recv_retry_def Let_def
      split: if_splits list.splits)

lemma served_fields:
  assumes "served cfg n job ok r w = (p', w')"
  shows "out w' = out w" "out_closed w' = out_closed w" "mutex w' = mutex w"
    "sent w' = sent w" "exit_status w' = exit_status w" "jobs_cap w' = jobs_cap w"
    "p' = Select ok \<or> p' = Lock239 job ok"
  using assms
  by (auto simp: served_def Let_def retry_send_def log_Print_def echo_def show_attempt_def
      split: reply.splits if_splits)

text \<open>What a statement can change.\<close>

lemma step_Pick:
  assumes "step cfg i (Pick k) p w = (p', w')"
  shows "out w' = out w \<and> out_closed w' = out_closed w \<and> mutex w' = mutex w \<and>
         sent w' = sent w \<and> exit_status w' = exit_status w \<and> jobs_cap w' = jobs_cap w \<and>
         wrote p' = wrote p \<and> holds_m p' = holds_m p \<and> exiting p' = exiting p"
proof (cases p)
  case (Select ok)
  show ?thesis
  proof (cases "select ok w ! (k mod length (select ok w))")
    case (Received job ok' w'')
    with select_member [of ok w k] have "Received job ok' w'' \<in> set (select ok w)" by simp
    note f = select_Received [OF this]
    from assms Select Received have "p' = Attempt job ok'" "w' = w''"
      by (simp_all add: Let_def)
    with f Select show ?thesis by simp
  next
    case JobsClosed
    with assms Select show ?thesis by (auto simp: Let_def)
  next
    case Default
    with assms Select show ?thesis by (auto simp: Let_def)
  qed
qed (use assms in auto)

lemma step_Reply:
  assumes "step cfg i (Reply r) p w = (p', w')"
  shows "out w' = out w \<and> out_closed w' = out_closed w \<and> mutex w' = mutex w \<and>
         sent w' = sent w \<and> exit_status w' = exit_status w \<and> jobs_cap w' = jobs_cap w \<and>
         wrote p' = wrote p \<and> holds_m p' = holds_m p \<and> exiting p' = exiting p"
proof (cases p)
  case (Attempt job ok)
  with assms have "served cfg i job ok r w = (p', w')" by simp
  note f = served_fields [OF this]
  from f(7) have "wrote p' = False" "holds_m p' = False" "exiting p' = False" by auto
  with f Attempt show ?thesis by simp
qed (use assms in auto)

lemma step_Go_fields:
  assumes "step cfg i Go p w = (p', w')"
  shows "sent w' = sent w" "jobs_cap w' = jobs_cap w" "jobs w' = jobs w"
  using assms
  by (cases p; auto simp: Fprintf_out_def out_Close_def log_if_error_def log_Print_def
      split: if_splits option.splits)+

lemma step_sent:
  assumes "step cfg i x p w = (p', w')"
  shows "sent w' = sent w"
proof (cases x)
  case Go
  with assms step_Go_fields(1) show ?thesis by blast
next
  case (Pick k)
  with assms step_Pick show ?thesis by blast
next
  case (Reply r)
  with assms step_Reply show ?thesis by blast
qed

lemma step_lines:
  assumes "firstOnly cfg" "step cfg i x p w = (p', w')"
  shows "length (out w') + (if wrote p then 1 else 0)
           \<le> length (out w) + (if wrote p' then 1 else 0)"
proof (cases x)
  case Go
  with assms show ?thesis
    by (cases p) (auto simp: Fprintf_out_def out_Close_def log_if_error_def log_Print_def
        split: if_splits option.splits)
next
  case (Pick k)
  with assms(2) step_Pick [of cfg i k p w p' w'] show ?thesis by simp
next
  case (Reply r)
  with assms(2) step_Reply [of cfg i r p w p' w'] show ?thesis by simp
qed

lemma step_exiting:
  assumes "exiting p" "step cfg i Go p w = (p', w')"
  shows "exiting p'" "out w' = out w"
  using assms
  by (cases p; auto simp: out_Close_def log_if_error_def log_Print_def
      split: if_splits option.splits)+

lemma main_step_fields:
  "out (world (main_step env s)) = out (world s)"
  "mutex (world (main_step env s)) = mutex (world s)"
  "workers (main_step env s) = workers s"
  by (cases "main_pc s";
      simp add: main_step_def log_Fatal_def log_Print_def jobs_send_def Let_def
        split: option.splits sum.splits scanned.splits list.splits)+

lemma main_step_handler:
  "(handler (main_step env s) = handler s \<and>
      (main_pc (main_step env s) = Line341 \<longrightarrow> main_pc s = Line341)) \<or>
   (main_pc s = Line341 \<and> handler (main_step env s) = Await \<and>
      main_pc (main_step env s) = Line358)"
  by (cases "main_pc s";
      simp add: main_step_def log_Fatal_def log_Print_def jobs_send_def Let_def
        split: option.splits sum.splits scanned.splits list.splits)

lemma filter_update_count:
  "i < length xs \<Longrightarrow>
   length (filter P (xs[i := y])) + (if P (xs ! i) then 1 else 0) =
   length (filter P xs) + (if P y then 1 else 0)"
proof (induction xs arbitrary: i)
  case Nil
  then show ?case by simp
next
  case (Cons x xs)
  then show ?case by (cases i) auto
qed

lemma lines_inv_exec:
  assumes "firstOnly cfg" "lines_inv s"
  shows "lines_inv (exec cfg env e s)"
proof (cases e)
  case (Worker i x)
  show ?thesis
  proof (cases "exit_status (world s) = None \<and> i < length (workers s)")
    case True
    obtain p' w' where st: "step cfg i x (workers s ! i) (world s) = (p', w')"
      by (cases "step cfg i x (workers s ! i) (world s)")
    from step_lines [OF assms(1) st] filter_update_count [of i "workers s" wrote p'] True assms(2)
    have "length (out w') \<le> length (filter wrote ((workers s)[i := p']))"
      by (auto simp: lines_inv_def split: if_splits)
    moreover have "exec cfg env e s = s\<lparr>world := w', workers := (workers s)[i := p']\<rparr>"
      using True st Worker by simp
    ultimately show ?thesis
      using assms(2) by (simp add: lines_inv_def)
  next
    case False
    then have "exec cfg env e s = s" using Worker by auto
    with assms show ?thesis by simp
  qed
next
  case Main
  show ?thesis
  proof (cases "exit_status (world s) = None")
    case True
    then have e: "exec cfg env e s = main_step env s" using Main by simp
    from main_step_handler [of env s] assms(2) have "exiting (handler (main_step env s))"
      by (auto simp: lines_inv_def)
    with assms(2) e show ?thesis
      by (simp add: lines_inv_def main_step_fields)
  next
    case False
    then have "exec cfg env e s = s" using Main by auto
    with assms show ?thesis by simp
  qed
next
  case Signal
  with assms(2) show ?thesis by (auto simp: lines_inv_def)
next
  case Handler
  show ?thesis
  proof (cases "exit_status (world s) = None")
    case True
    obtain p' w' where st: "step cfg (length (workers s)) Go (handler s) (world s) = (p', w')"
      by (cases "step cfg (length (workers s)) Go (handler s) (world s)")
    from assms(2) have "exiting (handler s)" by (simp add: lines_inv_def)
    note f = step_exiting [OF this st]
    have "exec cfg env e s = s\<lparr>world := w', handler := p'\<rparr>"
      using True st Handler by simp
    with f assms(2) show ?thesis by (simp add: lines_inv_def)
  next
    case False
    then have "exec cfg env e s = s" using Handler by auto
    with assms show ?thesis by simp
  qed
qed

lemma lines_inv_run:
  "firstOnly cfg \<Longrightarrow> lines_inv s \<Longrightarrow> lines_inv (run cfg env evs s)"
  unfolding run_def
  by (induction evs arbitrary: s) (simp_all add: lines_inv_exec)

lemma length_workers_exec: "length (workers (exec cfg env e s)) = length (workers s)"
  by (cases e) (auto simp: main_step_fields split: prod.splits)

lemma length_workers_run: "length (workers (run cfg env evs s)) = length (workers s)"
  unfolding run_def
  by (induction evs arbitrary: s) (simp_all add: length_workers_exec)

lemma lines_bound:
  assumes "firstOnly cfg"
  shows "length (out (world (run cfg env evs (process N cap at)))) \<le> N"
proof -
  let ?s = "run cfg env evs (process N cap at)"
  have "lines_inv (process N cap at)"
    by (simp add: lines_inv_def process_def started_def)
  then have "lines_inv ?s"
    by (rule lines_inv_run [OF assms])
  then have "length (out (world ?s)) \<le> length (filter wrote (workers ?s))"
    by (simp add: lines_inv_def)
  also have "\<dots> \<le> length (workers ?s)" by simp
  also have "\<dots> = N"
    by (simp add: length_workers_run process_def started_def)
  finally show ?thesis .
qed

lemma step_mutex:
  assumes "step cfg i x p w = (p', w')" "holds_m p = (mutex w = Some i)"
  shows "holds_m p' = (mutex w' = Some i)"
    and "mutex w' \<noteq> mutex w \<Longrightarrow> mutex w = None \<or> mutex w = Some i"
    and "mutex w' = None \<or> mutex w' = mutex w \<or> mutex w' = Some i"
proof -
  have "holds_m p' = (mutex w' = Some i) \<and>
        (mutex w' \<noteq> mutex w \<longrightarrow> mutex w = None \<or> mutex w = Some i) \<and>
        (mutex w' = None \<or> mutex w' = mutex w \<or> mutex w' = Some i)"
  proof (cases x)
    case Go
    with assms show ?thesis
      by (cases p) (auto simp: Fprintf_out_def out_Close_def log_if_error_def log_Print_def
          split: if_splits option.splits)
  next
    case (Pick k)
    with assms step_Pick [of cfg i k p w p' w'] show ?thesis by simp
  next
    case (Reply r)
    with assms step_Reply [of cfg i r p w p' w'] show ?thesis by simp
  qed
  then show "holds_m p' = (mutex w' = Some i)"
    and "mutex w' \<noteq> mutex w \<Longrightarrow> mutex w = None \<or> mutex w = Some i"
    and "mutex w' = None \<or> mutex w' = mutex w \<or> mutex w' = Some i"
    by blast+
qed

text \<open>
  The goroutines other than number \<open>i\<close> keep their relation to the mutex when \<open>i\<close> runs
  a statement.
\<close>

lemma others_keep:
  assumes own: "holds_m p = (mutex w = Some i)"
    and st: "step cfg i x p w = (p', w')"
    and other: "q = (mutex w = Some j)" "j \<noteq> i"
  shows "q = (mutex w' = Some j)"
proof (cases "mutex w' = mutex w")
  case True
  with other show ?thesis by simp
next
  case False
  with step_mutex(2) [OF st own] have "mutex w = None \<or> mutex w = Some i" by simp
  then have "mutex w \<noteq> Some j" using other(2) by auto
  moreover from step_mutex(3) [OF st own] False have "mutex w' = None \<or> mutex w' = Some i"
    by blast
  then have "mutex w' \<noteq> Some j" using other(2) by auto
  ultimately show ?thesis using other(1) by simp
qed

lemma mutex_inv_exec:
  assumes "mutex_inv s"
  shows "mutex_inv (exec cfg env e s)"
proof -
  let ?N = "length (workers s)"
  have old: "((j < ?N \<and> holds_m (workers s ! j)) \<or> (j = ?N \<and> holds_m (handler s)))
               = (mutex (world s) = Some j)" for j
    using assms by (simp add: mutex_inv_def)
  have old_main: "main_pc s = Line341 \<Longrightarrow> handler s = Idle"
    using assms by (simp add: mutex_inv_def)
  show ?thesis
  proof (cases e)
    case (Worker i x)
    show ?thesis
    proof (cases "exit_status (world s) = None \<and> i < ?N")
      case True
      then have i: "i < ?N" by simp
      obtain p' w' where st: "step cfg i x (workers s ! i) (world s) = (p', w')"
        by (cases "step cfg i x (workers s ! i) (world s)")
      from old [of i] i have own: "holds_m (workers s ! i) = (mutex (world s) = Some i)"
        by simp
      have new: "((j < ?N \<and> holds_m ((workers s)[i := p'] ! j)) \<or> (j = ?N \<and> holds_m (handler s)))
                   = (mutex w' = Some j)" for j
      proof (cases "j = i")
        case True
        with step_mutex(1) [OF st own] i show ?thesis by simp
      next
        case False
        then have "(workers s)[i := p'] ! j = workers s ! j" by simp
        with others_keep [OF own st old [of j] False] show ?thesis by simp
      qed
      have "exec cfg env e s = s\<lparr>world := w', workers := (workers s)[i := p']\<rparr>"
        using True st Worker by simp
      then show ?thesis
        using new old_main by (simp add: mutex_inv_def)
    next
      case False
      then have "exec cfg env e s = s" using Worker by auto
      with assms show ?thesis by simp
    qed
  next
    case Main
    show ?thesis
    proof (cases "exit_status (world s) = None")
      case True
      then have e: "exec cfg env e s = main_step env s" using Main by simp
      from main_step_handler [of env s] old_main
      have h: "holds_m (handler (main_step env s)) = holds_m (handler s)"
        and m: "main_pc (main_step env s) = Line341 \<longrightarrow> handler (main_step env s) = Idle"
        by auto
      from old h m e show ?thesis
        by (simp add: mutex_inv_def main_step_fields)
    next
      case False
      then have "exec cfg env e s = s" using Main by auto
      with assms show ?thesis by simp
    qed
  next
    case Signal
    show ?thesis
    proof (cases "exit_status (world s) = None \<and> handler s = Await")
      case True
      then have e: "exec cfg env e s = s\<lparr>handler := Lock131\<rparr>" using Signal by simp
      from True have "holds_m (handler s) = False" by simp
      moreover from True old_main have "main_pc s \<noteq> Line341" by auto
      ultimately show ?thesis using old e by (simp add: mutex_inv_def)
    next
      case False
      then have "exec cfg env e s = s" using Signal by auto
      with assms show ?thesis by simp
    qed
  next
    case Handler
    show ?thesis
    proof (cases "exit_status (world s) = None")
      case True
      obtain p' w' where st: "step cfg ?N Go (handler s) (world s) = (p', w')"
        by (cases "step cfg ?N Go (handler s) (world s)")
      from old [of ?N] have own: "holds_m (handler s) = (mutex (world s) = Some ?N)"
        by simp
      have new: "((j < ?N \<and> holds_m (workers s ! j)) \<or> (j = ?N \<and> holds_m p'))
                   = (mutex w' = Some j)" for j
      proof (cases "j = ?N")
        case True
        with step_mutex(1) [OF st own] show ?thesis by simp
      next
        case False
        with others_keep [OF own st old [of j] False] show ?thesis by simp
      qed
      have keep: "main_pc s = Line341 \<longrightarrow> p' = Idle"
      proof
        assume "main_pc s = Line341"
        then have "handler s = Idle" by (rule old_main)
        with st show "p' = Idle" by simp
      qed
      have "exec cfg env e s = s\<lparr>world := w', handler := p'\<rparr>"
        using True st Handler by simp
      then show ?thesis
        using new keep by (simp add: mutex_inv_def)
    next
      case False
      then have "exec cfg env e s = s" using Handler by auto
      with assms show ?thesis by simp
    qed
  qed
qed

lemma mutex_inv_run: "mutex_inv s \<Longrightarrow> mutex_inv (run cfg env evs s)"
  unfolding run_def
  by (induction evs arbitrary: s) (simp_all add: mutex_inv_exec)

lemma mutex_inv_process: "mutex_inv (process N cap at)"
  by (simp add: mutex_inv_def process_def started_def)

lemma close_under_mutex:
  assumes "i < N" "workers (run cfg env evs (process N cap at)) ! i = Close132"
  shows "mutex (world (run cfg env evs (process N cap at))) = Some i"
proof -
  let ?s = "run cfg env evs (process N cap at)"
  have len: "length (workers ?s) = N"
    by (simp add: length_workers_run process_def started_def)
  have "mutex_inv ?s"
    by (rule mutex_inv_run [OF mutex_inv_process])
  then have "((i < length (workers ?s) \<and> holds_m (workers ?s ! i)) \<or>
              (i = length (workers ?s) \<and> holds_m (handler ?s))) = (mutex (world ?s) = Some i)"
    unfolding mutex_inv_def by blast
  with assms len show ?thesis by simp
qed

text \<open>Behind its write a worker that runs on its own is eight statements from the exit.\<close>

lemma exit_after_write:
  assumes "firstOnly cfg" "exit_status (world s) = None" "i < length (workers s)"
    "workers s ! i = Unlock241 err ok"
  shows "exit_status (world (run cfg env (replicate 8 (Worker i Go)) s)) = Some 0 \<and>
         out_closed (world (run cfg env (replicate 8 (Worker i Go)) s)) \<and>
         out (world (run cfg env (replicate 8 (Worker i Go)) s)) = out (world s)"
proof -
  have r: "replicate 8 (Worker i Go) =
      [Worker i Go, Worker i Go, Worker i Go, Worker i Go,
       Worker i Go, Worker i Go, Worker i Go, Worker i Go]"
    by (simp add: numeral_eq_Suc)
  show ?thesis
    using assms unfolding r
    by (cases "out_closed (world s)"; cases err)
       (simp_all add: run_def out_Close_def log_if_error_def log_Print_def)
qed


section \<open>Facts about the pairs \<open>main\<close> sends\<close>

lemma scan_loop_Token:
  "Scan input = Token line rest \<Longrightarrow>
   scan_loop input = (line # fst (scan_loop rest), snd (scan_loop rest))"
  by (subst scan_loop.simps) (simp add: split_beta)

lemma scan_loop_TooLong: "Scan input = TooLong \<Longrightarrow> scan_loop input = ([], True)"
  by (subst scan_loop.simps) simp

lemma scan_loop_EndOfInput: "Scan input = EndOfInput \<Longrightarrow> scan_loop input = ([], False)"
  by (subst scan_loop.simps) simp

lemma pairs_from_Cons:
  "pairs_from (l # ls) =
     (if length (SplitN l '':'' 2) < 2 then pairs_from ls
      else \<lparr>user = SplitN l '':'' 2 ! 0, pass = SplitN l '':'' 2 ! 1\<rparr> # pairs_from ls)"
  by (simp add: pairs_from_def SplitN_colon_2)

lemma ahead_main_step:
  assumes "ahead (main_pc s) = Some (ps, e)"
  shows "\<exists>ps'. ahead (main_pc (main_step env s)) = Some (ps', e) \<and>
               sent (world (main_step env s)) @ ps' = sent (world s) @ ps"
proof (cases "main_pc s")
  case (Scan366 input rerr)
  show ?thesis
  proof (cases "Scan input")
    case (Token line rest)
    with assms Scan366 show ?thesis
      by (auto simp: main_step_def scan_loop_Token pairs_from_Cons Let_def)
  next
    case TooLong
    with assms Scan366 show ?thesis
      by (simp add: main_step_def scan_loop_TooLong pairs_from_def)
  next
    case EndOfInput
    with assms Scan366 show ?thesis
      by (simp add: main_step_def scan_loop_EndOfInput pairs_from_def)
  qed
next
  case (Send372 job rest rerr)
  with assms show ?thesis
    by (auto simp: main_step_def jobs_send_def split: if_splits)
next
  case (Err374 err)
  with assms show ?thesis
    by (cases err) (auto simp: main_step_def log_Fatal_def log_Print_def)
next
  case (Outer392 passwords logins)
  with assms show ?thesis
    by (cases passwords) (simp_all add: main_step_def matrix_def)
next
  case (Inner393 pw us rest logins)
  with assms show ?thesis
    by (cases us) (auto simp: main_step_def jobs_send_def matrix_def split: if_splits)
qed (use assms in \<open>simp_all add: main_step_def\<close>)

lemma worker_step_world:
  assumes "step cfg i x p w = (p', w')"
  shows "sent w' = sent w"
  using assms by (rule step_sent)

lemma ahead_exec:
  assumes "ahead (main_pc s) = Some (ps, e)"
  shows "\<exists>ps'. ahead (main_pc (exec cfg env ev s)) = Some (ps', e) \<and>
               sent (world (exec cfg env ev s)) @ ps' = sent (world s) @ ps"
proof (cases ev)
  case (Worker i x)
  obtain p' w' where st: "step cfg i x (workers s ! i) (world s) = (p', w')"
    by (cases "step cfg i x (workers s ! i) (world s)")
  from step_sent [OF st] st Worker assms show ?thesis by simp
next
  case Main
  with assms ahead_main_step [OF assms, of env] show ?thesis by simp
next
  case Signal
  with assms show ?thesis by simp
next
  case Handler
  obtain p' w' where st: "step cfg (length (workers s)) Go (handler s) (world s) = (p', w')"
    by (cases "step cfg (length (workers s)) Go (handler s) (world s)")
  from step_sent [OF st] st Handler assms show ?thesis by simp
qed

lemma ahead_run:
  assumes "ahead (main_pc s) = Some (ps, e)"
  shows "\<exists>ps'. ahead (main_pc (run cfg env evs s)) = Some (ps', e) \<and>
               sent (world (run cfg env evs s)) @ ps' = sent (world s) @ ps"
  using assms
proof (induction evs arbitrary: s ps)
  case Nil
  then show ?case by (simp add: run_def)
next
  case (Cons ev evs)
  from ahead_exec [OF Cons.prems, of cfg env ev] obtain ps1 where
    1: "ahead (main_pc (exec cfg env ev s)) = Some (ps1, e)"
    and 2: "sent (world (exec cfg env ev s)) @ ps1 = sent (world s) @ ps"
    by blast
  from Cons.IH [OF 1] obtain ps' where
    "ahead (main_pc (run cfg env evs (exec cfg env ev s))) = Some (ps', e)"
    "sent (world (run cfg env evs (exec cfg env ev s))) @ ps' = sent (world (exec cfg env ev s)) @ ps1"
    by blast
  with 2 show ?case by (simp add: run_def)
qed

lemma prefix_of_plan:
  assumes "ahead (main_pc s) = Some (ps, e)" "sent (world s) = []"
  shows "prefix (sent (world (run cfg env evs s))) ps"
proof -
  from ahead_run [OF assms(1), of cfg env evs] assms(2) obtain ps' where
    "sent (world (run cfg env evs s)) @ ps' = ps" by auto
  then show ?thesis by (auto simp: prefix_def)
qed

lemma all_of_plan:
  assumes "ahead (main_pc s) = Some (ps, e)" "sent (world s) = []"
    "ahead (main_pc (run cfg env evs s)) = Some ([], e')"
  shows "sent (world (run cfg env evs s)) = ps" "e' = e"
proof -
  from ahead_run [OF assms(1), of cfg env evs] assms(2) obtain ps' where
    "ahead (main_pc (run cfg env evs s)) = Some (ps', e)"
    "sent (world (run cfg env evs s)) @ ps' = ps" by auto
  with assms(3) show "sent (world (run cfg env evs s)) = ps" "e' = e" by simp_all
qed

lemma length_matrix: "length (matrix logins passwords) = length logins * length passwords"
  by (induction passwords) (simp_all add: matrix_def)

text \<open>A channel without buffer takes nothing, whatever runs.\<close>

lemma main_step_no_buffer:
  assumes "jobs_cap (world s) = 0"
  shows "jobs_cap (world (main_step env s)) = 0 \<and> sent (world (main_step env s)) = sent (world s)"
  using assms
  by (cases "main_pc s";
      simp add: main_step_def log_Fatal_def log_Print_def jobs_send_def Let_def
        split: option.splits sum.splits scanned.splits list.splits)

lemma step_jobs_cap:
  assumes "step cfg i x p w = (p', w')"
  shows "jobs_cap w' = jobs_cap w"
proof (cases x)
  case Go
  with assms step_Go_fields(2) show ?thesis by blast
next
  case (Pick k)
  with assms step_Pick show ?thesis by blast
next
  case (Reply r)
  with assms step_Reply show ?thesis by blast
qed

lemma exec_no_buffer:
  assumes "jobs_cap (world s) = 0"
  shows "jobs_cap (world (exec cfg env ev s)) = 0 \<and>
         sent (world (exec cfg env ev s)) = sent (world s)"
proof (cases ev)
  case (Worker i x)
  obtain p' w' where st: "step cfg i x (workers s ! i) (world s) = (p', w')"
    by (cases "step cfg i x (workers s ! i) (world s)")
  from step_sent [OF st] step_jobs_cap [OF st] st Worker assms show ?thesis by simp
next
  case Main
  with main_step_no_buffer [OF assms, of env] assms show ?thesis by simp
next
  case Signal
  with assms show ?thesis by simp
next
  case Handler
  obtain p' w' where st: "step cfg (length (workers s)) Go (handler s) (world s) = (p', w')"
    by (cases "step cfg (length (workers s)) Go (handler s) (world s)")
  from step_sent [OF st] step_jobs_cap [OF st] st Handler assms show ?thesis by simp
qed

lemma nothing_pushed_without_buffer:
  assumes "jobs_cap (world s) = 0"
  shows "sent (world (run cfg env evs s)) = sent (world s)"
  using assms
proof (induction evs arbitrary: s)
  case Nil
  then show ?case by (simp add: run_def)
next
  case (Cons ev evs)
  from exec_no_buffer [OF Cons.prems, of cfg env ev]
  have "jobs_cap (world (exec cfg env ev s)) = 0"
    and "sent (world (exec cfg env ev s)) = sent (world s)" by simp_all
  with Cons.IH [of "exec cfg env ev s"] show ?case by (simp add: run_def)
qed

text \<open>What the scanner delivers.\<close>

lemma Scan_line:
  assumes "CHR 0x0A \<notin> set l" "length l < MaxScanTokenSize"
  shows "Scan (l @ CHR 0x0A # rest) = Token (dropCR l) rest"
proof -
  from assms(1) have "x \<in> set l \<Longrightarrow> x \<noteq> CHR 0x0A" for x by auto
  then have "takeWhile (\<lambda>c. c \<noteq> CHR 0x0A) (l @ CHR 0x0A # rest) = l"
    by (simp add: takeWhile_append2)
  with assms(2) show ?thesis
    by (simp add: Scan_def)
qed

lemma Scan_long:
  assumes "CHR 0x0A \<notin> set l" "MaxScanTokenSize \<le> length l"
  shows "Scan (l @ rest) = TooLong"
proof -
  from assms(1) have "x \<in> set l \<Longrightarrow> x \<noteq> CHR 0x0A" for x by auto
  then have "takeWhile (\<lambda>c. c \<noteq> CHR 0x0A) (l @ rest)
      = l @ takeWhile (\<lambda>c. c \<noteq> CHR 0x0A) rest"
    by (simp add: takeWhile_append2)
  moreover from assms(2) have "l \<noteq> []"
    by (auto simp: MaxScanTokenSize_def)
  ultimately show ?thesis
    using assms(2) by (simp add: Scan_def)
qed

lemma scan_loop_lines:
  assumes "\<forall>l \<in> set ls. CHR 0x0A \<notin> set l \<and> length l < MaxScanTokenSize"
  shows "scan_loop (concat (map (\<lambda>l. l @ [CHR 0x0A]) ls)) = (map dropCR ls, False)"
  using assms
proof (induction ls)
  case Nil
  have "Scan [] = EndOfInput" by (simp add: Scan_def)
  then show ?case by (simp add: scan_loop_EndOfInput)
next
  case (Cons l ls)
  then have "Scan (l @ CHR 0x0A # concat (map (\<lambda>l. l @ [CHR 0x0A]) ls))
      = Token (dropCR l) (concat (map (\<lambda>l. l @ [CHR 0x0A]) ls))"
    by (simp add: Scan_line)
  from scan_loop_Token [OF this] Cons show ?case by simp
qed

lemma scan_long_line_file: "Scan long_line_file = TooLong"
proof -
  have "Scan (replicate 65536 CHR ''a'' @ ('':b'' @ [CHR 0x0A] @ ''c:d'' @ [CHR 0x0A])) = TooLong"
    by (rule Scan_long) (simp_all add: MaxScanTokenSize_def)
  then show ?thesis by (simp add: long_line_file_def)
qed

lemma scan_three_lines_file:
  "scan_loop three_lines_file = ([''a:b'', ''nocolon'', ''c:d:e''], False)"
proof -
  have "scan_loop (concat (map (\<lambda>l. l @ [CHR 0x0A]) [''a:b'', ''nocolon'', ''c:d:e'']))
      = (map dropCR [''a:b'', ''nocolon'', ''c:d:e''], False)"
    by (rule scan_loop_lines) (simp add: MaxScanTokenSize_def)
  then show ?thesis by (simp add: three_lines_file_def dropCR_def)
qed


section \<open>Facts about the example runs\<close>

lemmas eval_defs = run_def process_def started_def two_logins_def first_only_cfg_def
  readme_cfg_def to_stdout_def ok_reply_def main_step_def jobs_send_def served_def
  select_def recv_jobs_def recv_retry_def failed_def Contains_def show_attempt_def echo_def
  Fprintf_out_def out_Close_def log_if_error_def log_Print_def result_line_def
  Let_def

lemma replicate_2: "replicate 2 x = [x, x]"
  by (simp add: numeral_2_eq_2)

lemma replicate_4: "replicate 4 x = [x, x, x, x]"
  by (simp add: numeral_eq_Suc)

lemma two_writes_state:
  "out (world (run first_only_cfg to_stdout two_writes two_logins))
     = [''admin:a'' @ [CHR 0x0A], ''root:a'' @ [CHR 0x0A]]"
  "exit_status (world (run first_only_cfg to_stdout two_writes two_logins)) = Some 0"
  by (simp_all add: eval_defs replicate_2 two_writes_def)

lemma until_write_state:
  "workers (run first_only_cfg to_stdout until_write two_logins) ! 0 = Unlock241 None True"
  "exit_status (world (run first_only_cfg to_stdout until_write two_logins)) = None"
  by (simp_all add: eval_defs replicate_2 until_write_def)

lemma until_close_state:
  "workers (run first_only_cfg to_stdout until_close two_logins) ! 0 = Close132"
  by (simp add: eval_defs replicate_2 until_close_def)

lemma three_lines_state:
  "main_pc (run readme_cfg to_stdout main_seven_times three_lines) = Close399"
  by (simp add: main_seven_times_def three_lines_def three_lines_file_def replicate_4
      Scan_def dropCR_def MaxScanTokenSize_def scanner_Err_def SplitN_colon_2 eval_defs)

lemma long_line_state:
  "main_pc (run readme_cfg to_stdout main_twice long_line) = Err374 (Some ErrTooLong)"
  "exit_status (world (run readme_cfg to_stdout main_twice long_line)) = Some 1"
  "sent (world (run readme_cfg to_stdout main_twice long_line)) = []"
  by (simp_all add: main_twice_def long_line_def scan_long_line_file scanner_Err_def
      log_Fatal_def eval_defs)

lemma long_line_at_Err:
  "main_pc (run readme_cfg to_stdout main_once long_line) = Err374 (Some ErrTooLong)"
  "exit_status (world (run readme_cfg to_stdout main_once long_line)) = None"
  by (simp_all add: main_once_def long_line_def scan_long_line_file scanner_Err_def eval_defs)

text \<open>
  With one worker that runs its \<open>select\<close> before \<open>main\<close> has sent anything, the worker
  returns, \<open>main\<close> fills the buffer with the first pair and then waits in its second
  send, with nobody left to receive.
\<close>

lemma early_return_blocks_main:
  "workers (run readme_cfg to_stdout early_return one_worker) = [Done250]"
  "sent (world (run readme_cfg to_stdout early_return one_worker))
     = [\<lparr>user = ''admin'', pass = ''secret''\<rparr>]"
  "exec readme_cfg to_stdout Main (run readme_cfg to_stdout early_return one_worker)
     = run readme_cfg to_stdout early_return one_worker"
  by (simp_all add: early_return_def one_worker_def eval_defs)


section \<open>Claims\<close>

text \<open>
  C1. For every response body the success evaluator computes \<open>matched\<close>: the match of the
  pattern in pattern mode, and in literal mode whether the condition occurs in the body as
  a contiguous byte sequence. \<open>failed\<close> is \<open>matched\<close>, negated when the inversion flag is
  set. A failed pair goes to the next iteration and leaves the sink as it was; a pair
  that has not failed is reported, and its line \<open>login:password\<close> is appended to the sink
  (a sink that is already closed takes no line).
\<close>

theorem success_evaluator:
  "let matched = (case rCondition cfg of Some re \<Rightarrow> re body
                  | None \<Rightarrow> sublist (condition cfg) body);
       fail = (if invertedCondition cfg then \<not> matched else matched);
       w1 = echo cfg (BodyDump body) (echo cfg (HeaderDump hdr) (show_attempt cfg job n w));
       result = attempt canon cfg n (\<lambda>req. Response hdr body) job w
   in failed cfg body = fail \<and>
      result = (if fail then Continue w1 else report cfg job w1) \<and>
      out (world_of result) =
        (if fail then out w else if out_closed w then out w else out w @ [result_line job])"
  by (simp add: failed_iff attempt_def Let_def out_report)

text \<open>
  C2 asks that a worker which finds both channels empty while \<open>jobs\<close> is open waits for a
  pair or for the close. The worker of \<open>hydra.go\<close> does not wait: the \<open>select\<close> has a
  \<open>default\<close> case that leaves the loop, so right after the start, with nothing sent yet and
  \<open>jobs\<close> open, the worker returns, whatever the schedule.
\<close>

theorem worker_returns_while_jobs_open:
  "worker canon cfg n ((pick, server) # sched) True (fst (started N cap))
     = Returned (fst (started N cap))
   \<and> \<not> jobs_closed (fst (started N cap))
   \<and> jobs (fst (started N cap)) = [] \<and> retry (fst (started N cap)) = []"
  by (simp add: started_def select_def recv_jobs_def recv_retry_def)

text \<open>
  C3, as it is written, fails: there are runs in which fewer than \<open>|L| * |P|\<close> pairs are
  pushed. A send on \<open>jobs\<close> waits until the channel has room. With \<open>-t 0\<close> there is no
  worker and no buffer: \<open>main\<close> reaches its first send and stays there (another
  statement of \<open>main\<close> changes nothing), with nothing pushed, for one login and one
  password.
\<close>

theorem no_worker_nothing_pushed:
  "main_pc unbuffered = Outer392 [''secret''] [''admin''] \<and>
   workers unbuffered = [] \<and>
   sent (world (run readme_cfg to_stdout main_twice unbuffered)) = [] \<and>
   exec readme_cfg to_stdout Main (run readme_cfg to_stdout main_twice unbuffered)
     = run readme_cfg to_stdout main_twice unbuffered \<and>
   main_pc (run readme_cfg to_stdout main_twice unbuffered)
     = Inner393 ''secret'' [''admin''] [] [''admin'']"
  by (simp add: main_twice_def unbuffered_def eval_defs)

text \<open>
  C3, amended. In matrix mode, for every login list \<open>L\<close> and password list \<open>P\<close>, the pairs
  are pushed in the order of the passwords in the outer and the logins in the inner
  iteration, each send waiting until the queue has room: in every run the pairs pushed
  so far are an initial part of that sequence of \<open>|L| * |P|\<close> pairs, and they are all of
  it, exactly \<open>|L| * |P|\<close> pairs, once \<open>main\<close> has got past its loops to \<open>close(jobs)\<close>.
\<close>

theorem matrix_mode_pairs:
  assumes "main_pc s = Outer392 passwords logins" "sent (world s) = []"
  shows "let s' = run cfg env evs s;
             pairs = concat (map (\<lambda>pw. map (\<lambda>login. \<lparr>user = login, pass = pw\<rparr>) logins)
                             passwords)
         in prefix (sent (world s')) pairs \<and>
            length pairs = length logins * length passwords \<and>
            (main_pc s' \<in> {Close399, Wait400, Return401, Ended} \<longrightarrow> sent (world s') = pairs)"
proof -
  from assms(1) have a: "ahead (main_pc s) = Some (matrix logins passwords, None)" by simp
  have 1: "prefix (sent (world (run cfg env evs s))) (matrix logins passwords)"
    by (rule prefix_of_plan [OF a assms(2)])
  have 2: "sent (world (run cfg env evs s)) = matrix logins passwords"
    if "main_pc (run cfg env evs s) \<in> {Close399, Wait400, Return401, Ended}"
  proof -
    from ahead_run [OF a, of cfg env evs] obtain ps' where
      "ahead (main_pc (run cfg env evs s)) = Some (ps', None)" by blast
    with that have "ahead (main_pc (run cfg env evs s)) = Some ([], None)" by auto
    then show ?thesis by (rule all_of_plan(1) [OF a assms(2)])
  qed
  from 1 2 length_matrix [of logins passwords] show ?thesis
    by (simp add: Let_def matrix_def)
qed

text \<open>Four workers take nothing, and the buffer of four holds the four pairs.\<close>

theorem matrix_mode_pairs_witness:
  "main_pc two_by_two = Outer392 [''a'', ''b''] [''admin'', ''root''] \<and>
   sent (world two_by_two) = [] \<and>
   main_pc (run readme_cfg to_stdout main_nine_times two_by_two) = Close399 \<and>
   sent (world (run readme_cfg to_stdout main_nine_times two_by_two)) =
     [\<lparr>user = ''admin'', pass = ''a''\<rparr>, \<lparr>user = ''root'', pass = ''a''\<rparr>,
      \<lparr>user = ''admin'', pass = ''b''\<rparr>, \<lparr>user = ''root'', pass = ''b''\<rparr>]"
proof -
  have a: "main_pc two_by_two = Outer392 [''a'', ''b''] [''admin'', ''root'']"
    and b: "sent (world two_by_two) = []"
    by (simp_all add: two_by_two_def process_def started_def)
  have c: "main_pc (run readme_cfg to_stdout main_nine_times two_by_two) = Close399"
    by (simp add: main_nine_times_def two_by_two_def replicate_4 eval_defs)
  from matrix_mode_pairs [OF a b, of readme_cfg to_stdout main_nine_times] a b c show ?thesis
    by (simp add: Let_def)
qed

text \<open>
  C4, as it is written, fails: with \<open>-f\<close> and two workers, two lines are written before the
  process exits with status 0. The mutex is released between the write and \<open>safeExit\<close>,
  and the other worker writes in between.
\<close>

theorem first_match_two_lines:
  "firstOnly first_only_cfg \<and>
   out (world (run first_only_cfg to_stdout two_writes two_logins))
     = [''admin:a'' @ [CHR 0x0A], ''root:a'' @ [CHR 0x0A]] \<and>
   exit_status (world (run first_only_cfg to_stdout two_writes two_logins)) = Some 0"
  using two_writes_state by (simp add: first_only_cfg_def)

text \<open>
  C4, amended. In first-match-only mode, once a worker has written a successful pair, at
  most one line per worker is ever written (at most \<open>N\<close> lines with \<open>N\<close> workers); the worker
  closes the sink under the mutex (at its \<open>out.Close()\<close> it holds the mutex), and it exits
  the process with status 0 without writing again, whatever is still pending: run on its
  own from the end of its write, it is eight statements from the exit. This holds in
  every interleaving of the workers, \<open>main\<close> and the handler of signals.
\<close>

theorem first_match_only:
  assumes "firstOnly cfg"
  shows "let s = run cfg env evs (process N cap at) in
           length (out (world s)) \<le> N \<and>
           (\<forall>i < N. workers s ! i = Close132 \<longrightarrow> mutex (world s) = Some i) \<and>
           (\<forall>i < N. \<forall>err ok.
              workers s ! i = Unlock241 err ok \<and> exit_status (world s) = None \<longrightarrow>
              (let s' = run cfg env (replicate 8 (Worker i Go)) s
               in exit_status (world s') = Some 0 \<and> out_closed (world s') \<and>
                  out (world s') = out (world s)))"
proof -
  let ?s = "run cfg env evs (process N cap at)"
  have len: "length (workers ?s) = N"
    by (simp add: length_workers_run process_def started_def)
  have 1: "length (out (world ?s)) \<le> N"
    by (rule lines_bound [OF assms])
  have 2: "\<forall>i < N. workers ?s ! i = Close132 \<longrightarrow> mutex (world ?s) = Some i"
    by (auto intro: close_under_mutex)
  have 3: "\<forall>i < N. \<forall>err ok.
              workers ?s ! i = Unlock241 err ok \<and> exit_status (world ?s) = None \<longrightarrow>
              (let s' = run cfg env (replicate 8 (Worker i Go)) ?s
               in exit_status (world s') = Some 0 \<and> out_closed (world s') \<and>
                  out (world s') = out (world ?s))"
  proof (intro allI impI)
    fix i err ok
    assume "i < N" and h: "workers ?s ! i = Unlock241 err ok \<and> exit_status (world ?s) = None"
    with len have i: "i < length (workers ?s)" by simp
    from h have e: "exit_status (world ?s) = None" and u: "workers ?s ! i = Unlock241 err ok"
      by simp_all
    from exit_after_write [OF assms e i u, of env]
    show "let s' = run cfg env (replicate 8 (Worker i Go)) ?s
          in exit_status (world s') = Some 0 \<and> out_closed (world s') \<and>
             out (world s') = out (world ?s)"
      by (simp add: Let_def)
  qed
  from 1 2 3 show ?thesis
    by (simp only: Let_def)
qed

text \<open>
  The run of the two workers above is one of these interleavings; in the shorter ones
  worker 0 is at the close, holding the mutex, and at the end of its write.
\<close>

theorem first_match_only_witness:
  "firstOnly first_only_cfg \<and>
   length (out (world (run first_only_cfg to_stdout two_writes two_logins))) \<le> 2 \<and>
   workers (run first_only_cfg to_stdout until_close two_logins) ! 0 = Close132 \<and>
   mutex (world (run first_only_cfg to_stdout until_close two_logins)) = Some 0 \<and>
   workers (run first_only_cfg to_stdout until_write two_logins) ! 0 = Unlock241 None True \<and>
   exit_status (world (run first_only_cfg to_stdout until_write two_logins)) = None \<and>
   exit_status (world (run first_only_cfg to_stdout (replicate 8 (Worker 0 Go))
      (run first_only_cfg to_stdout until_write two_logins))) = Some 0"
proof -
  have f: "firstOnly first_only_cfg"
    by (simp add: first_only_cfg_def)
  have p: "two_logins = process 2 0 (Outer392 [''a''] [''admin'', ''root''])"
    by (simp add: two_logins_def)
  from first_match_only [OF f, of to_stdout two_writes 2 0 "Outer392 [''a''] [''admin'', ''root'']"]
  have a: "length (out (world (run first_only_cfg to_stdout two_writes two_logins))) \<le> 2"
    unfolding p by (simp only: Let_def)
  from first_match_only [OF f, of to_stdout until_close 2 0 "Outer392 [''a''] [''admin'', ''root'']"]
    until_close_state
  have b: "mutex (world (run first_only_cfg to_stdout until_close two_logins)) = Some 0"
    unfolding p by (simp only: Let_def)
  from first_match_only [OF f, of to_stdout until_write 2 0 "Outer392 [''a''] [''admin'', ''root'']"]
    until_write_state
  have c: "exit_status (world (run first_only_cfg to_stdout (replicate 8 (Worker 0 Go))
      (run first_only_cfg to_stdout until_write two_logins))) = Some 0"
    unfolding p by (simp only: Let_def)
  from f a b c until_close_state until_write_state show ?thesis
    by simp
qed

text \<open>
  C5. An attempt that ends with a connection error or with a body-read error logs the
  error, puts the pair at the end of the retry buffer when the buffer has room and drops
  it without a further message when it is full, and leaves the sink and the exit status
  untouched. The loop then goes on with its next iteration from that state: the worker
  is never stopped by such an error.
\<close>

theorem transient_errors:
  "(\<exists>w'. attempt canon cfg n (\<lambda>req. DoError err) job w = Continue w' \<and>
         transient cfg job n [] err w w') \<and>
   (\<exists>w'. attempt canon cfg n (\<lambda>req. ReadAllError hdr err) job w = Continue w' \<and>
         transient cfg job n (if verbose cfg then [HeaderDump hdr] else []) err w w') \<and>
   worker canon cfg n ((pick, \<lambda>req. DoError err) # sched) ok w =
     (case select ok w ! (pick mod length (select ok w)) of
        Default \<Rightarrow> Returned w
      | JobsClosed \<Rightarrow> worker canon cfg n sched False w
      | Received job ok' w' \<Rightarrow>
          worker canon cfg n sched ok'
            (world_of (attempt canon cfg n (\<lambda>req. DoError err) job w'))) \<and>
   worker canon cfg n ((pick, \<lambda>req. ReadAllError hdr err) # sched) ok w =
     (case select ok w ! (pick mod length (select ok w)) of
        Default \<Rightarrow> Returned w
      | JobsClosed \<Rightarrow> worker canon cfg n sched False w
      | Received job ok' w' \<Rightarrow>
          worker canon cfg n sched ok'
            (world_of (attempt canon cfg n (\<lambda>req. ReadAllError hdr err) job w')))"
proof -
  have a: "\<exists>w'. attempt canon cfg n (\<lambda>req. DoError err) job w = Continue w' \<and>
         transient cfg job n [] err w w'"
    by (simp add: attempt_def transient_def retry_send_def log_Print_def echo_def show_attempt_def)
  have b: "\<exists>w'. attempt canon cfg n (\<lambda>req. ReadAllError hdr err) job w = Continue w' \<and>
         transient cfg job n (if verbose cfg then [HeaderDump hdr] else []) err w w'"
    by (simp add: attempt_def transient_def retry_send_def log_Print_def echo_def show_attempt_def)
  have c: "worker canon cfg n ((pick, \<lambda>req. DoError err) # sched) ok w =
        (case select ok w ! (pick mod length (select ok w)) of
           Default \<Rightarrow> Returned w
         | JobsClosed \<Rightarrow> worker canon cfg n sched False w
         | Received job ok' w' \<Rightarrow>
             worker canon cfg n sched ok' (world_of (attempt canon cfg n (\<lambda>req. DoError err) job w')))"
    by (rule worker_goes_on) simp
  have d: "worker canon cfg n ((pick, \<lambda>req. ReadAllError hdr err) # sched) ok w =
        (case select ok w ! (pick mod length (select ok w)) of
           Default \<Rightarrow> Returned w
         | JobsClosed \<Rightarrow> worker canon cfg n sched False w
         | Received job ok' w' \<Rightarrow>
             worker canon cfg n sched ok' (world_of (attempt canon cfg n (\<lambda>req. ReadAllError hdr err) job w')))"
    by (rule worker_goes_on) simp
  from a b c d show ?thesis by blast
qed

text \<open>
  C6. The rendered request body is the template with every occurrence of \<open>^USER^\<close>
  replaced by the query-escaped login and, in the text so obtained, every occurrence of
  \<open>^PASS^\<close> replaced by the query-escaped password.
\<close>

theorem postData_substitutes_placeholders:
  "postData template job =
     substitute ''^PASS^'' (QueryEscape (pass job))
       (substitute ''^USER^'' (QueryEscape (user job)) template)"
  by (simp add: postData_def Replace_all_substitute)

text \<open>
  C7, as it is written, fails for the request that is sent. With \<open>-h "User-Agent: curl"\<close>
  the header map holds two values for \<open>User-Agent\<close>, but only the first, the standard one,
  is written: the added value does not accumulate. With \<open>-H "Host: example.org"\<close> the map
  holds that value alone, but the \<open>Host\<close> line written is the host of the URL.
\<close>

theorem special_headers_as_sent:
  "req_header (new_request as_written with_headers admin_secret) ''User-Agent''
     = Some [''Mozilla/5.0 (Hydra)'', ''curl''] \<and>
   sent_User_Agent ''Go-http-client/1.1'' (new_request as_written with_headers admin_secret)
     = ''Mozilla/5.0 (Hydra)'' \<and>
   req_header (new_request as_written with_headers admin_secret) ''Host''
     = Some [''example.org''] \<and>
   sent_Host (new_request as_written with_headers admin_secret) = ''127.0.0.1''"
proof -
  have ua: "req_header (new_request as_written with_headers admin_secret) ''User-Agent''
     = Some [''Mozilla/5.0 (Hydra)'', ''curl'']"
    by (simp add: new_request_def Let_def request_header_lookup standard_values
        with_headers_values as_written_def)
  have h: "req_header (new_request as_written with_headers admin_secret) ''Host''
     = Some [''example.org'']"
    by (simp add: new_request_def Let_def request_header_lookup with_headers_values)
  have s: "sent_Host (new_request as_written with_headers admin_secret) = ''127.0.0.1''"
    by (simp add: sent_Host_def new_request_def Let_def with_headers_def readme_cfg_def)
  from ua have "sent_User_Agent ''Go-http-client/1.1''
      (new_request as_written with_headers admin_secret) = ''Mozilla/5.0 (Hydra)''"
    by (simp add: sent_User_Agent_def)
  with ua h s show ?thesis by simp
qed

text \<open>
  C7, amended. In the header map of every request a worker builds (\<open>req.Header\<close>), key by
  key (\<open>k\<close> a canonical key): the standard headers are set first (\<open>Host\<close> with the host of
  the URL, \<open>User-Agent\<close>, \<open>Content-Length\<close> with the length of the body, \<open>Content-Type\<close>
  and \<open>Connection\<close>), the \<open>-h\<close> values for the key are appended to them in flag order, so
  repeated \<open>-h\<close> flags accumulate; if there is any \<open>-H\<close> flag for the key, all of that is
  overwritten and only the value of the last such flag remains. (What is then sent for
  \<open>Host\<close>, \<open>User-Agent\<close> and \<open>Content-Length\<close> is the library's business.)
\<close>

theorem request_header_values:
  "req_header (new_request canon cfg job) k =
     (let standard =
            (if canon ''Host'' = k then [host cfg] else []) @
            (if canon ''User-Agent'' = k then [''Mozilla/5.0 (Hydra)''] else []) @
            (if canon ''Content-Length'' = k
             then [Itoa (length (postData (data cfg) job))] else []) @
            (if canon ''Content-Type'' = k then [''application/x-www-form-urlencoded''] else []) @
            (if canon ''Connection'' = k then [''Keep-Alive''] else []);
          added = map val (filter (\<lambda>x. canon (key x) = k) (headersAdd cfg));
          replaced = map val (filter (\<lambda>x. canon (key x) = k) (headersReplace cfg))
      in if replaced \<noteq> [] then Some [last replaced]
         else if standard @ added = [] then None
         else Some (standard @ added))"
proof -
  have "req_header (new_request canon cfg job) k
      = request_header canon cfg (postData (data cfg) job) k"
    by (simp add: new_request_def Let_def)
  also note request_header_lookup
  finally show ?thesis
    unfolding standard_values Let_def
    by (simp only: values_for_def)
qed


text \<open>
  C8, as it is written, fails: a line of the combined file with a colon need not produce
  a pair. The scanner does not deliver a line of 64 KiB or more; it stops, and \<open>main\<close>
  logs the error and exits with status 1. For a file whose first line has 65536 bytes
  before its colon, nothing is pushed, neither for that line nor for the line \<open>c:d\<close>
  behind it.
\<close>

theorem long_line_no_pair:
  "main_pc long_line = Scan366 long_line_file None \<and>
   long_line_file = replicate 65536 CHR ''a'' @ '':b'' @ [CHR 0x0A] @ ''c:d'' @ [CHR 0x0A] \<and>
   sent (world (run readme_cfg to_stdout main_twice long_line)) = [] \<and>
   exit_status (world (run readme_cfg to_stdout main_twice long_line)) = Some 1"
  using long_line_state
  by (simp add: long_line_def process_def long_line_file_def)

text \<open>
  C8, amended. Of the lines the scanner delivers from the combined file (its lines up to
  the first one of 64 KiB or more), a line without a colon is skipped silently, and a
  line with a colon produces exactly one pair: the login is the text before the first
  colon, the password all that follows that colon, further colons included. The pairs
  are pushed in the order of their lines, each send waiting until the queue has room: in
  every run the pairs pushed so far are an initial part of that sequence, and all of it
  once \<open>main\<close> is at the test of \<open>scanner.Err()\<close> or behind it. If the scanner has stopped
  with an error (a line too long, or a failed read), \<open>main\<close> does not get to
  \<open>close(jobs)\<close>: it logs the error and exits with status 1.
\<close>

theorem combined_file_pairs:
  assumes "main_pc s = Scan366 input rerr" "sent (world s) = []"
  shows "let s' = run cfg env evs s;
             pairs = map (\<lambda>l. \<lparr>user = takeWhile (\<lambda>c. c \<noteq> CHR '':'') l,
                              pass = tl (dropWhile (\<lambda>c. c \<noteq> CHR '':'') l)\<rparr>)
                       (filter (\<lambda>l. CHR '':'' \<in> set l) (fst (scan_loop input)));
             err = scanner_Err (snd (scan_loop input)) rerr
         in prefix (sent (world s')) pairs \<and>
            (main_pc s' \<in> {Close399, Wait400, Return401, Ended} \<longrightarrow>
               sent (world s') = pairs \<and> err = None) \<and>
            (\<forall>e. main_pc s' = Err374 e \<longrightarrow> sent (world s') = pairs \<and> e = err) \<and>
            (\<forall>e. main_pc s' = Err374 (Some e) \<and> exit_status (world s') = None \<longrightarrow>
               world (exec cfg env Main s') = (log_Print e (world s'))\<lparr>exit_status := Some 1\<rparr>)"
proof -
  let ?s' = "run cfg env evs s"
  let ?pairs = "pairs_from (fst (scan_loop input))"
  let ?err = "scanner_Err (snd (scan_loop input)) rerr"
  from assms(1) have a: "ahead (main_pc s) = Some (?pairs, ?err)" by simp
  have 1: "prefix (sent (world ?s')) ?pairs"
    by (rule prefix_of_plan [OF a assms(2)])
  have 2: "sent (world ?s') = ?pairs \<and> ?err = None"
    if "main_pc ?s' \<in> {Close399, Wait400, Return401, Ended}"
  proof -
    from that have "ahead (main_pc ?s') = Some ([], None)" by auto
    from all_of_plan [OF a assms(2) this] show ?thesis by simp
  qed
  have 3: "sent (world ?s') = ?pairs \<and> e = ?err" if "main_pc ?s' = Err374 e" for e
  proof -
    from that have "ahead (main_pc ?s') = Some ([], e)" by simp
    from all_of_plan [OF a assms(2) this] show ?thesis by simp
  qed
  have 4: "world (exec cfg env Main ?s') = (log_Print e (world ?s'))\<lparr>exit_status := Some 1\<rparr>"
    if "main_pc ?s' = Err374 (Some e) \<and> exit_status (world ?s') = None" for e
    using that by (simp add: main_step_def log_Fatal_def)
  from 1 2 3 4 show ?thesis
    unfolding Let_def pairs_from_def by blast
qed

text \<open>Three short lines, and the file with the long line.\<close>

theorem combined_file_pairs_witness:
  "main_pc three_lines = Scan366 three_lines_file None \<and>
   sent (world three_lines) = [] \<and>
   main_pc (run readme_cfg to_stdout main_seven_times three_lines) = Close399 \<and>
   sent (world (run readme_cfg to_stdout main_seven_times three_lines)) =
     [\<lparr>user = ''a'', pass = ''b''\<rparr>, \<lparr>user = ''c'', pass = ''d:e''\<rparr>] \<and>
   main_pc long_line = Scan366 long_line_file None \<and>
   sent (world long_line) = [] \<and>
   main_pc (run readme_cfg to_stdout main_once long_line) = Err374 (Some ErrTooLong) \<and>
   exit_status (world (run readme_cfg to_stdout main_once long_line)) = None \<and>
   exit_status (world (exec readme_cfg to_stdout Main (run readme_cfg to_stdout main_once long_line)))
     = Some 1"
proof -
  have a: "main_pc three_lines = Scan366 three_lines_file None"
    and b: "sent (world three_lines) = []"
    by (simp_all add: three_lines_def process_def started_def)
  have c: "main_pc long_line = Scan366 long_line_file None"
    and d: "sent (world long_line) = []"
    by (simp_all add: long_line_def process_def started_def)
  from combined_file_pairs [OF a b, of readme_cfg to_stdout main_seven_times]
    three_lines_state
  have 1: "sent (world (run readme_cfg to_stdout main_seven_times three_lines)) =
     [\<lparr>user = ''a'', pass = ''b''\<rparr>, \<lparr>user = ''c'', pass = ''d:e''\<rparr>]"
    by (simp add: Let_def scan_three_lines_file)
  from combined_file_pairs [OF c d, of readme_cfg to_stdout main_once] long_line_at_Err
  have 2: "exit_status (world (exec readme_cfg to_stdout Main
              (run readme_cfg to_stdout main_once long_line))) = Some 1"
    by (simp add: Let_def)
  from a b c d 1 2 three_lines_state long_line_at_Err show ?thesis
    by simp
qed

text \<open>
  C9, as it is written, fails: with both \<open>-l\<close> and \<open>-L\<close> (and the three positional
  arguments) the process exits with status 1 after the one line of \<open>log.Fatal\<close>; the
  usage text is not printed.
\<close>

theorem conflicting_flags_no_usage:
  "conflicting_flags both_logins \<and>
   main_startup both_logins every_url_parses every_pattern_compiles [] =
     Exit [LogLine ''both -l and -L are specified''] 1 \<and>
   UsageText \<notin> set [LogLine ''both -l and -L are specified'']"
  by (simp add: conflicting_flags_def main_startup_def both_logins_def)

text \<open>
  C9, amended. For every configuration with conflicting credential flags or with missing
  logins or passwords, the process exits with status 1 before any worker is started (so
  before any request): with exactly three positional arguments it prints one log line
  with the message and no usage text, otherwise it prints the usage text alone.
\<close>

theorem bad_credentials_exit_1:
  assumes "conflicting_flags f \<or> missing_credentials f"
  shows "if length (args f) = 3
         then \<exists>msg. main_startup f url_Parse regexp_ok proxy = Exit [LogLine msg] 1
         else main_startup f url_Parse regexp_ok proxy = Exit [UsageText] 1"
  using assms unfolding conflicting_flags_def missing_credentials_def main_startup_def
  by auto

theorem bad_credentials_exit_1_witness:
  "(conflicting_flags both_logins \<or> missing_credentials both_logins) \<and>
   length (args both_logins) = 3 \<and>
   (\<exists>msg. main_startup both_logins every_url_parses every_pattern_compiles []
            = Exit [LogLine msg] 1) \<and>
   (conflicting_flags no_arguments \<or> missing_credentials no_arguments) \<and>
   length (args no_arguments) \<noteq> 3 \<and>
   main_startup no_arguments every_url_parses every_pattern_compiles [] = Exit [UsageText] 1"
  using bad_credentials_exit_1 [of both_logins every_url_parses every_pattern_compiles "[]"]
    bad_credentials_exit_1 [of no_arguments every_url_parses every_pattern_compiles "[]"]
  by (simp add: conflicting_flags_def both_logins_def no_arguments_def)

text \<open>
  C10. \<open>Headers.Set\<close> fails with an error when the flag value has no colon. Otherwise the
  value is split at its first colon: the key is the text before it, the header value is
  the text after it without its leading spaces, and the header is appended to the list.
\<close>

theorem Headers_Set_first_colon:
  "Headers_Set hs v =
     (if CHR '':'' \<in> set v
      then Inr (hs @ [\<lparr>key = takeWhile (\<lambda>c. c \<noteq> CHR '':'') v,
                      val = dropWhile (\<lambda>c. c = CHR '' '')
                              (tl (dropWhile (\<lambda>c. c \<noteq> CHR '':'') v))\<rparr>])
      else Inl (Error (''invalid header: '' @ v)))"
  by (simp add: Headers_Set_def Contains_sublist sublist_single SplitN_colon_2 TrimLeft_def)

end
